theory Spec2Isabelle
  imports Complex_Main
begin

section \<open>The icon generator \<^verbatim>\<open>scripts/generate_icon.py\<close>\<close>

text \<open>
  Python floats are read as real numbers: \<^verbatim>\<open>math.pi\<close>, \<^verbatim>\<open>math.cos\<close> and
  \<^verbatim>\<open>math.sin\<close> are \<open>pi\<close>, \<open>cos\<close> and \<open>sin\<close>, the literal \<^verbatim>\<open>0.08\<close> is the
  rational \<open>8/100\<close>. Python's \<^verbatim>\<open>/\<close> on two integers is true division, \<^verbatim>\<open>//\<close> is \<open>div\<close>.
  Where a property depends on the rounding of IEEE doubles, the bound on the outline of
  the path builder, the function is given a second time with its roundings written out.
\<close>

subsection \<open>Path builder: \<^verbatim>\<open>make_shield_path\<close>\<close>

type_synonym point = "real \<times> real"

text \<open>
  The functions of this subsection read the floats of the source as real numbers: they
  are what the source computes in exact arithmetic. The roundings are written out in
  \<open>make_shield_path_fl\<close> further down, which is this function in a given floating-point
  arithmetic; the bound on the outline is stated there.
\<close>

definition steps :: nat where
  "steps = 40"

text \<open>
  \<^verbatim>\<open>for i in <range>: ...; points.append((px, py))\<close>: the body computes one point from
  the loop index, and the loop appends the points to the list in index order.
\<close>

fun append_each :: "(nat \<Rightarrow> point) \<Rightarrow> nat list \<Rightarrow> point list \<Rightarrow> point list" where
  "append_each body [] points = points"
| "append_each body (i # is) points = append_each body is (points @ [body i])"

text \<open>Body of the first loop (source lines 21 to 25): the top-left rounded corner.\<close>

definition top_left_point :: "real \<Rightarrow> real \<Rightarrow> real \<Rightarrow> real \<Rightarrow> nat \<Rightarrow> point" where
  "top_left_point cx cy w h i =
     (let top_y = cy - h / 2;
          top_r = w * 0.08;
          angle = pi + (pi / 2) * (real i / real (steps div 4));
          px = (cx - w / 2 + top_r) + top_r * cos angle;
          py = (top_y + top_r) + top_r * sin angle
      in (px, py))"

text \<open>Body of the second loop (source lines 28 to 32): the top-right rounded corner.\<close>

definition top_right_point :: "real \<Rightarrow> real \<Rightarrow> real \<Rightarrow> real \<Rightarrow> nat \<Rightarrow> point" where
  "top_right_point cx cy w h i =
     (let top_y = cy - h / 2;
          top_r = w * 0.08;
          angle = (3 * pi / 2) + (pi / 2) * (real i / real (steps div 4));
          px = (cx + w / 2 - top_r) + top_r * cos angle;
          py = (top_y + top_r) + top_r * sin angle
      in (px, py))"

text \<open>
  The expression both curve loops evaluate, once for each coordinate (source lines 47, 48,
  58 and 59): \<^verbatim>\<open>(1 - t) ** 2 * p0 + 2 * (1 - t) * t * p1 + t ** 2 * p2\<close>.
\<close>

definition quad_bezier :: "real \<Rightarrow> real \<Rightarrow> real \<Rightarrow> real \<Rightarrow> real" where
  "quad_bezier a b c t = (1 - t)\<^sup>2 * a + 2 * (1 - t) * t * b + t\<^sup>2 * c"

text \<open>Body of the third loop (source lines 39 to 49): right side to the bottom point.\<close>

definition right_curve_point :: "real \<Rightarrow> real \<Rightarrow> real \<Rightarrow> real \<Rightarrow> nat \<Rightarrow> point" where
  "right_curve_point cx cy w h i =
     (let top_y = cy - h / 2;
          bot_y = cy + h / 2;
          straight_end = top_y + h * 0.50;
          t = real i / real steps;
          p0 = (cx + w / 2, straight_end);
          p1 = (cx + w * 0.25, straight_end + h * 0.35);
          p2 = (cx, bot_y);
          px = quad_bezier (fst p0) (fst p1) (fst p2) t;
          py = quad_bezier (snd p0) (snd p1) (snd p2) t
      in (px, py))"

text \<open>Body of the fourth loop (source lines 52 to 60): bottom point to the left side.\<close>

definition left_curve_point :: "real \<Rightarrow> real \<Rightarrow> real \<Rightarrow> real \<Rightarrow> nat \<Rightarrow> point" where
  "left_curve_point cx cy w h i =
     (let top_y = cy - h / 2;
          bot_y = cy + h / 2;
          straight_end = top_y + h * 0.50;
          t = real i / real steps;
          p0 = (cx, bot_y);
          p1 = (cx - w * 0.25, straight_end + h * 0.35);
          p2 = (cx - w / 2, straight_end);
          px = quad_bezier (fst p0) (fst p1) (fst p2) t;
          py = quad_bezier (snd p0) (snd p1) (snd p2) t
      in (px, py))"

definition make_shield_path :: "real \<Rightarrow> real \<Rightarrow> real \<Rightarrow> real \<Rightarrow> point list" where
  "make_shield_path cx cy w h =
     (let points = [];
          top_y = cy - h / 2;
          bot_y = cy + h / 2;
          top_r = w * 0.08;
          points = append_each (top_left_point cx cy w h) [0 ..< steps div 4 + 1] points;
          points = append_each (top_right_point cx cy w h) [0 ..< steps div 4 + 1] points;
          straight_end = top_y + h * 0.50;
          points = points @ [(cx + w / 2, straight_end)];
          points = append_each (right_curve_point cx cy w h) [1 ..< steps + 1] points;
          points = append_each (left_curve_point cx cy w h) [1 ..< steps + 1] points;
          points = points @ [(cx - w / 2, top_y + top_r)]
      in points)"

text \<open>The six pieces of the outline, in the order the function appends them.\<close>

definition top_left_corner :: "real \<Rightarrow> real \<Rightarrow> real \<Rightarrow> real \<Rightarrow> point list" where
  "top_left_corner cx cy w h = map (top_left_point cx cy w h) [0 ..< 11]"

definition top_right_corner :: "real \<Rightarrow> real \<Rightarrow> real \<Rightarrow> real \<Rightarrow> point list" where
  "top_right_corner cx cy w h = map (top_right_point cx cy w h) [0 ..< 11]"

definition right_side_end :: "real \<Rightarrow> real \<Rightarrow> real \<Rightarrow> real \<Rightarrow> point" where
  "right_side_end cx cy w h = (cx + w / 2, cy - h / 2 + h * 0.50)"

definition right_curve :: "real \<Rightarrow> real \<Rightarrow> real \<Rightarrow> real \<Rightarrow> point list" where
  "right_curve cx cy w h = map (right_curve_point cx cy w h) [1 ..< 41]"

definition left_curve :: "real \<Rightarrow> real \<Rightarrow> real \<Rightarrow> real \<Rightarrow> point list" where
  "left_curve cx cy w h = map (left_curve_point cx cy w h) [1 ..< 41]"

definition left_side_end :: "real \<Rightarrow> real \<Rightarrow> real \<Rightarrow> real \<Rightarrow> point" where
  "left_side_end cx cy w h = (cx - w / 2, cy - h / 2 + w * 0.08)"

text \<open>The axis-aligned box of width \<open>w\<close> and height \<open>h\<close> centred at \<open>(cx, cy)\<close>.\<close>

definition in_bbox :: "real \<Rightarrow> real \<Rightarrow> real \<Rightarrow> real \<Rightarrow> point \<Rightarrow> bool" where
  "in_bbox cx cy w h p =
     (cx - w / 2 \<le> fst p \<and> fst p \<le> cx + w / 2 \<and> cy - h / 2 \<le> snd p \<and> snd p \<le> cy + h / 2)"

text \<open>
  A point of the quadratic Bezier curve with control points \<open>p0\<close>, \<open>p1\<close>, \<open>p2\<close>, and the
  circle of centre \<open>c\<close> and radius \<open>r\<close>: the vocabulary for the shape of the outline.
\<close>

definition bezier_point :: "point \<Rightarrow> point \<Rightarrow> point \<Rightarrow> real \<Rightarrow> point" where
  "bezier_point p0 p1 p2 t =
     (quad_bezier (fst p0) (fst p1) (fst p2) t, quad_bezier (snd p0) (snd p1) (snd p2) t)"

definition on_circle :: "point \<Rightarrow> real \<Rightarrow> point \<Rightarrow> bool" where
  "on_circle c r p = ((fst p - fst c)\<^sup>2 + (snd p - snd c)\<^sup>2 = r\<^sup>2)"

subsection \<open>Numbers and strings of the Python runtime\<close>

text \<open>\<^verbatim>\<open>int(x)\<close> on a float truncates towards zero.\<close>

definition py_int :: "real \<Rightarrow> int" where
  "py_int x = (if 0 \<le> x then \<lfloor>x\<rfloor> else \<lceil>x\<rceil>)"

text \<open>
  \<^verbatim>\<open>str(n)\<close>, as the f-strings apply it to the sizes and scales, which are natural numbers:
  the decimal digits of \<open>n\<close>.
\<close>

definition digit_char :: "nat \<Rightarrow> char" where
  "digit_char d = ''0123456789'' ! d"

function str_nat :: "nat \<Rightarrow> string" where
  "str_nat n = (if n < 10 then [digit_char n] else str_nat (n div 10) @ [digit_char (n mod 10)])"
  by pat_completeness auto
termination
  by (relation "measure id") auto

declare str_nat.simps [simp del]

text \<open>
  \<^verbatim>\<open>os.path.join(path, *p)\<close> of \<^verbatim>\<open>posixpath\<close>: a component that starts with a slash
  replaces what came before, otherwise it is appended after exactly one slash.
\<close>

fun path_join :: "string \<Rightarrow> string list \<Rightarrow> string" where
  "path_join path [] = path"
| "path_join path (b # bs) =
     path_join
       (if b \<noteq> [] \<and> hd b = CHR ''/'' then b
        else if path = [] \<or> last path = CHR ''/'' then path @ b
        else path @ ''/'' @ b) bs"

subsection \<open>Images and the drawing calls of the imaging library\<close>

text \<open>
  A colour is what the script passes as \<^verbatim>\<open>fill\<close> or as the initial colour of an image:
  a triple, a quadruple with alpha, or a single number for the one-band mode \<^verbatim>\<open>"L"\<close>.
  A shape is the geometry of one call on an \<^verbatim>\<open>ImageDraw\<close> object, with the arguments
  in the order the script gives them.
\<close>

datatype colour = RGB int int int | RGBA int int int int | Lum int

type_synonym box = "real \<times> real \<times> real \<times> real"

datatype shape =
    RoundedRectangle box int
  | Polygon "point list"
  | Line point point int
  | Arc box int int int

type_synonym draw_call = "shape \<times> colour"

record image =
  mode :: string
  dims :: "int \<times> int"
  pixels :: "int \<times> int \<Rightarrow> colour"

text \<open>
  What the script takes from the imaging library without defining it: which pixels a
  shape covers when it is rasterised, how a mask value strictly between 0 and 255 mixes
  two pixels, how one pixel is composited over another, and the Lanczos resampling of an
  image to a new size. These are parameters of the model.
\<close>

record backend =
  covers :: "shape \<Rightarrow> int \<times> int \<Rightarrow> bool"
  blend :: "int \<Rightarrow> colour \<Rightarrow> colour \<Rightarrow> colour"
  over :: "colour \<Rightarrow> colour \<Rightarrow> colour"
  resize :: "image \<Rightarrow> int \<times> int \<Rightarrow> image"

text \<open>\<^verbatim>\<open>Image.new(mode, size, color)\<close>: every pixel has the given colour.\<close>

definition image_new :: "string \<Rightarrow> int \<times> int \<Rightarrow> colour \<Rightarrow> image" where
  "image_new m sz c = \<lparr>mode = m, dims = sz, pixels = (\<lambda>p. c)\<rparr>"

text \<open>
  A drawing call overwrites the pixels its shape covers with the fill colour, all bands
  including alpha; a triple given to an image with an alpha band is opaque.
\<close>

definition ink :: "string \<Rightarrow> colour \<Rightarrow> colour" where
  "ink m c = (case c of RGB r g b \<Rightarrow> (if m = ''RGBA'' then RGBA r g b 255 else c) | _ \<Rightarrow> c)"

definition draw :: "backend \<Rightarrow> image \<Rightarrow> draw_call \<Rightarrow> image" where
  "draw be im call =
     im\<lparr>pixels := (\<lambda>p. if covers be (fst call) p then ink (mode im) (snd call) else pixels im p)\<rparr>"

fun draw_all :: "backend \<Rightarrow> image \<Rightarrow> draw_call list \<Rightarrow> image" where
  "draw_all be im [] = im"
| "draw_all be im (call # calls) = draw_all be (draw be im call) calls"

definition alpha_of :: "colour \<Rightarrow> int" where
  "alpha_of c = (case c of RGBA r g b a \<Rightarrow> a | _ \<Rightarrow> 255)"

text \<open>\<^verbatim>\<open>im.split()[3]\<close>: the alpha band as an image of mode \<^verbatim>\<open>"L"\<close>.\<close>

definition alpha_band :: "image \<Rightarrow> image" where
  "alpha_band im = \<lparr>mode = ''L'', dims = dims im, pixels = (\<lambda>p. Lum (alpha_of (pixels im p)))\<rparr>"

text \<open>
  \<^verbatim>\<open>Image.composite(image1, image2, mask)\<close>: the pixel of \<open>image1\<close> where the mask is 255,
  the pixel of \<open>image2\<close> where it is 0, a mix in between.
\<close>

definition mask_value :: "colour \<Rightarrow> int" where
  "mask_value c = (case c of Lum v \<Rightarrow> v | RGB r g b \<Rightarrow> r | RGBA r g b a \<Rightarrow> a)"

definition composite :: "backend \<Rightarrow> image \<Rightarrow> image \<Rightarrow> image \<Rightarrow> image" where
  "composite be image1 image2 msk =
     image2\<lparr>pixels := (\<lambda>p.
        let m = mask_value (pixels msk p)
        in if m = 255 then pixels image1 p
           else if m = 0 then pixels image2 p
           else blend be m (pixels image1 p) (pixels image2 p))\<rparr>"

text \<open>\<^verbatim>\<open>im.putalpha(alpha)\<close>: the alpha band of \<open>im\<close> is replaced by the band \<open>alpha\<close>.\<close>

definition set_alpha :: "colour \<Rightarrow> int \<Rightarrow> colour" where
  "set_alpha c a =
     (case c of RGBA r g b _ \<Rightarrow> RGBA r g b a | RGB r g b \<Rightarrow> RGBA r g b a | Lum v \<Rightarrow> RGBA v v v a)"

definition putalpha :: "image \<Rightarrow> image \<Rightarrow> image" where
  "putalpha im alpha =
     im\<lparr>mode := ''RGBA'',
        pixels := (\<lambda>p. set_alpha (pixels im p) (mask_value (pixels alpha p)))\<rparr>"

text \<open>\<^verbatim>\<open>Image.alpha_composite(im1, im2)\<close>: \<open>im2\<close> over \<open>im1\<close>, pixel by pixel.\<close>

definition alpha_composite :: "backend \<Rightarrow> image \<Rightarrow> image \<Rightarrow> image" where
  "alpha_composite be im1 im2 = im1\<lparr>pixels := (\<lambda>p. over be (pixels im2 p) (pixels im1 p))\<rparr>"

subsection \<open>Microphone glyph: \<^verbatim>\<open>draw_microphone\<close>\<close>

text \<open>
  The local variables of \<^verbatim>\<open>draw_microphone\<close> (source lines 70 to 127), each as a
  function of the arguments it depends on: the scale, and for a vertical position also
  the centre ordinate \<open>cy\<close>.
\<close>

definition mic_color :: colour where
  "mic_color = RGB 220 250 248"

definition cap_w :: "real \<Rightarrow> real" where
  "cap_w s = 100 * s"

definition cap_h :: "real \<Rightarrow> real" where
  "cap_h s = 170 * s"

definition cap_r :: "real \<Rightarrow> real" where
  "cap_r s = cap_w s / 2"

definition cap_top :: "real \<Rightarrow> real \<Rightarrow> real" where
  "cap_top cy s = cy - cap_h s * 0.45"

definition cap_bot :: "real \<Rightarrow> real \<Rightarrow> real" where
  "cap_bot cy s = cap_top cy s + cap_h s"

definition line_color :: colour where
  "line_color = RGB 80 170 165"

definition grille_top :: "real \<Rightarrow> real \<Rightarrow> real" where
  "grille_top cy s = cap_top cy s + cap_h s * 0.12"

definition grille_bot :: "real \<Rightarrow> real \<Rightarrow> real" where
  "grille_bot cy s = cap_top cy s + cap_h s * 0.52"

definition num_lines :: nat where
  "num_lines = 5"

definition indent :: "real \<Rightarrow> real" where
  "indent s = cap_w s * 0.22"

definition line_width :: "real \<Rightarrow> int" where
  "line_width s = max 2 (py_int (3 * s))"

text \<open>Body of the grille loop (source lines 91 to 98).\<close>

definition grille_line :: "real \<Rightarrow> real \<Rightarrow> real \<Rightarrow> nat \<Rightarrow> draw_call" where
  "grille_line cx cy s i =
     (let t = real i / real (num_lines - 1);
          ly = grille_top cy s + (grille_bot cy s - grille_top cy s) * t
      in (Line (cx - cap_w s / 2 + indent s, ly) (cx + cap_w s / 2 - indent s, ly) (line_width s),
          line_color))"

definition arc_w :: "real \<Rightarrow> real" where
  "arc_w s = cap_w s * 1.7"

definition arc_h_val :: "real \<Rightarrow> real" where
  "arc_h_val s = cap_h s * 0.45"

definition arc_y :: "real \<Rightarrow> real \<Rightarrow> real" where
  "arc_y cy s = cap_bot cy s - cap_h s * 0.22"

definition arc_thickness :: "real \<Rightarrow> int" where
  "arc_thickness s = max 4 (py_int (12 * s))"

definition stand_w :: "real \<Rightarrow> int" where
  "stand_w s = max 4 (py_int (12 * s))"

definition stand_top :: "real \<Rightarrow> real \<Rightarrow> real" where
  "stand_top cy s = arc_y cy s + arc_h_val s"

definition stand_h :: "real \<Rightarrow> real" where
  "stand_h s = 55 * s"

definition base_w :: "real \<Rightarrow> real" where
  "base_w s = 90 * s"

definition base_h :: "real \<Rightarrow> int" where
  "base_h s = max 4 (py_int (12 * s))"

definition base_top :: "real \<Rightarrow> real \<Rightarrow> real" where
  "base_top cy s = stand_top cy s + stand_h s - real_of_int (base_h s) / 3"

text \<open>The calls \<^verbatim>\<open>draw_microphone\<close> makes on its \<^verbatim>\<open>draw\<close> argument, in order.\<close>

definition draw_microphone :: "real \<Rightarrow> real \<Rightarrow> real \<Rightarrow> draw_call list" where
  "draw_microphone cx cy s =
     [(RoundedRectangle (cx - cap_w s / 2, cap_top cy s, cx + cap_w s / 2, cap_bot cy s)
         (py_int (cap_r s)), mic_color)] @
     map (grille_line cx cy s) [0 ..< num_lines] @
     [(Arc (cx - arc_w s / 2, arc_y cy s, cx + arc_w s / 2, arc_y cy s + arc_h_val s * 2)
         0 180 (arc_thickness s), mic_color),
      (RoundedRectangle
         (cx - real_of_int (stand_w s) / 2, stand_top cy s,
          cx + real_of_int (stand_w s) / 2, stand_top cy s + stand_h s)
         (py_int (real_of_int (stand_w s) / 2)), mic_color),
      (RoundedRectangle
         (cx - base_w s / 2, base_top cy s, cx + base_w s / 2,
          base_top cy s + real_of_int (base_h s))
         (py_int (real_of_int (base_h s) / 2)), mic_color)]"

text \<open>A length \<open>f\<close> of the glyph is proportional to the scale: \<open>f s = k s\<close> for a constant \<open>k\<close>.\<close>

definition proportional :: "(real \<Rightarrow> real) \<Rightarrow> bool" where
  "proportional f = (\<exists>k. \<forall>s. f s = k * s)"

subsection \<open>Compositor: \<^verbatim>\<open>create_icon\<close>\<close>

definition SIZE :: int where
  "SIZE = 1024"

definition PAD :: int where
  "PAD = 80"

definition shield_w :: int where
  "shield_w = SIZE - PAD * 2"

definition shield_h :: real where
  "shield_h = real_of_int shield_w * 1.05"

definition icon_cx :: real where
  "icon_cx = real_of_int SIZE / 2"

definition icon_cy :: real where
  "icon_cy = real_of_int SIZE / 2 + 10"

definition shield_points :: "point list" where
  "shield_points = make_shield_path icon_cx icon_cy (real_of_int shield_w) shield_h"

definition mid_teal :: colour where
  "mid_teal = RGB 13 115 119"

text \<open>The canvas after the background and the shield are drawn (source lines 137 to 158).\<close>

definition shield_img :: "backend \<Rightarrow> image" where
  "shield_img be =
     (let img = image_new ''RGBA'' (SIZE, SIZE) (RGBA 0 0 0 0);
          bg_radius = py_int (real_of_int SIZE * 0.22);
          img = draw be img
                  (RoundedRectangle (0, 0, real_of_int (SIZE - 1), real_of_int (SIZE - 1)) bg_radius,
                   RGBA 245 248 250 255);
          img = draw be img (Polygon shield_points, mid_teal)
      in img)"

definition shield_top :: real where
  "shield_top = icon_cy - shield_h / 2"

definition shield_bot :: real where
  "shield_bot = icon_cy + shield_h / 2"

text \<open>Bodies of the two gradient loops (source lines 168 to 172 and 175 to 179).\<close>

definition highlight_alpha :: "nat \<Rightarrow> int" where
  "highlight_alpha i = (let t = 1 - (real i / (shield_h * 0.45)) in py_int (45 * t))"

definition highlight_line :: "nat \<Rightarrow> draw_call" where
  "highlight_line i =
     (let alpha = highlight_alpha i;
          y = shield_top + real i
      in (Line (0, y) (real_of_int SIZE, y) 0, RGBA 255 255 255 alpha))"

definition darken_alpha :: "nat \<Rightarrow> int" where
  "darken_alpha i = (let t = real i / (shield_h * 0.35) in py_int (35 * t))"

definition darken_line :: "nat \<Rightarrow> draw_call" where
  "darken_line i =
     (let alpha = darken_alpha i;
          y = shield_bot - real_of_int (py_int (shield_h * 0.35)) + real i
      in (Line (0, y) (real_of_int SIZE, y) 0, RGBA 0 0 0 alpha))"

definition highlight_lines :: "draw_call list" where
  "highlight_lines = map highlight_line [0 ..< nat (py_int (shield_h * 0.45))]"

definition darken_lines :: "draw_call list" where
  "darken_lines = map darken_line [0 ..< nat (py_int (shield_h * 0.35))]"

text \<open>The gradient layer before masking (source lines 161 to 179).\<close>

definition gradient_img :: "backend \<Rightarrow> image" where
  "gradient_img be =
     (let img = image_new ''RGBA'' (SIZE, SIZE) (RGBA 0 0 0 0);
          img = draw_all be img highlight_lines;
          img = draw_all be img darken_lines
      in img)"

text \<open>The mask (source lines 182 to 184) and the masked gradient layer (lines 186 to 188).\<close>

definition mask_img :: "backend \<Rightarrow> image" where
  "mask_img be = draw be (image_new ''L'' (SIZE, SIZE) (Lum 0)) (Polygon shield_points, Lum 255)"

definition masked_gradient :: "backend \<Rightarrow> image" where
  "masked_gradient be =
     putalpha (gradient_img be)
       (composite be (alpha_band (gradient_img be)) (image_new ''L'' (SIZE, SIZE) (Lum 0))
          (mask_img be))"

definition mic_scale :: real where
  "mic_scale = real_of_int shield_w / 820"

definition create_icon :: "backend \<Rightarrow> image" where
  "create_icon be =
     (let img = shield_img be;
          img = alpha_composite be img (masked_gradient be);
          img = draw_all be img (draw_microphone icon_cx (icon_cy - 10) mic_scale)
      in img)"

subsection \<open>Exporter: \<^verbatim>\<open>generate_sizes\<close>\<close>

text \<open>
  The manifest is a JSON value; an object keeps its keys in insertion order, as a Python
  dictionary does. A file holds either the PNG encoding of an image or the text
  \<^verbatim>\<open>json.dump\<close> writes for a value with the given indentation.
\<close>

datatype json = JString string | JInt int | JArray "json list" | JObject "(string \<times> json) list"

datatype content = PngFile image | JsonFile json nat

text \<open>
  What a run does to the outside world, in order: files saved, directories created,
  lines printed. A write either succeeds and is recorded, or raises \<^verbatim>\<open>OSError\<close> and
  leaves no record; which paths can be written is a parameter \<open>writable\<close> of the run.
  A function that can raise returns the error or its value, together with the events so
  far.
\<close>

datatype event = Saved string content | MadeDirs string | Printed string

datatype io_error = OSError string

type_synonym 'a io_result = "(io_error + 'a) \<times> event list"

definition save_file :: "(string \<Rightarrow> bool) \<Rightarrow> string \<Rightarrow> content \<Rightarrow> event list \<Rightarrow> unit io_result" where
  "save_file writable path c tr =
     (if writable path then (Inr (), tr @ [Saved path c]) else (Inl (OSError path), tr))"

definition makedirs :: "(string \<Rightarrow> bool) \<Rightarrow> string \<Rightarrow> event list \<Rightarrow> unit io_result" where
  "makedirs writable path tr =
     (if writable path then (Inr (), tr @ [MadeDirs path]) else (Inl (OSError path), tr))"

definition print_line :: "string \<Rightarrow> event list \<Rightarrow> event list" where
  "print_line s tr = tr @ [Printed s]"

definition sizes :: "(nat \<times> nat) list" where
  "sizes =
     [(16, 1), (16, 2),
      (32, 1), (32, 2),
      (128, 1), (128, 2),
      (256, 1), (256, 2),
      (512, 1), (512, 2)]"

text \<open>The f-string of source line 216, and the dictionary of lines 221 to 226.\<close>

definition icon_filename :: "nat \<Rightarrow> nat \<Rightarrow> string" where
  "icon_filename sz scale =
     ''icon_'' @ str_nat sz @ ''x'' @ str_nat sz @ (if scale = 2 then ''@2x'' else []) @ ''.png''"

definition manifest_entry :: "nat \<Rightarrow> nat \<Rightarrow> json" where
  "manifest_entry sz scale =
     JObject
       [(''filename'', JString (icon_filename sz scale)),
        (''idiom'', JString ''mac''),
        (''scale'', JString (str_nat scale @ ''x'')),
        (''size'', JString (str_nat sz @ ''x'' @ str_nat sz))]"

text \<open>
  The loop of source lines 213 to 226 over the remaining pairs, with the list
  \<^verbatim>\<open>images_json\<close> built so far. An error from \<^verbatim>\<open>save\<close> leaves the loop at once.
\<close>

fun export_each ::
  "backend \<Rightarrow> (string \<Rightarrow> bool) \<Rightarrow> image \<Rightarrow> string \<Rightarrow> (nat \<times> nat) list \<Rightarrow> json list \<Rightarrow>
   event list \<Rightarrow> (json list) io_result" where
  "export_each be writable source_img output_dir [] images_json tr = (Inr images_json, tr)"
| "export_each be writable source_img output_dir ((sz, scale) # rest) images_json tr =
     (let pixel_size = sz * scale;
          resized = resize be source_img (int pixel_size, int pixel_size);
          filename = icon_filename sz scale;
          filepath = output_dir @ ''/'' @ filename
      in case save_file writable filepath (PngFile resized) tr of
           (Inl e, tr) \<Rightarrow> (Inl e, tr)
         | (Inr u, tr) \<Rightarrow>
             (let tr = print_line
                         (''  Created '' @ filename @ '' ('' @ str_nat pixel_size @ ''x'' @
                          str_nat pixel_size @ ''px)'') tr;
                  images_json = images_json @ [manifest_entry sz scale]
              in export_each be writable source_img output_dir rest images_json tr))"

definition generate_sizes ::
  "backend \<Rightarrow> (string \<Rightarrow> bool) \<Rightarrow> image \<Rightarrow> string \<Rightarrow> event list \<Rightarrow> unit io_result" where
  "generate_sizes be writable source_img output_dir tr =
     (case export_each be writable source_img output_dir sizes [] tr of
        (Inl e, tr) \<Rightarrow> (Inl e, tr)
      | (Inr images_json, tr) \<Rightarrow>
          (let contents =
                 JObject
                   [(''images'', JArray images_json),
                    (''info'', JObject [(''author'', JString ''xcode''), (''version'', JInt 1)])];
               contents_path = output_dir @ ''/Contents.json''
           in case save_file writable contents_path (JsonFile contents 2) tr of
                (Inl e, tr) \<Rightarrow> (Inl e, tr)
              | (Inr u, tr) \<Rightarrow> (Inr (), print_line (''  Updated '' @ contents_path) tr)))"

subsection \<open>The script body\<close>

text \<open>
  Source lines 243 to 263. \<open>script_dir\<close> is the value of \<^verbatim>\<open>os.path.dirname(__file__)\<close>.
\<close>

definition build_dir :: "string \<Rightarrow> string" where
  "build_dir script_dir = path_join script_dir [''..'', ''build'']"

definition master_path :: "string \<Rightarrow> string" where
  "master_path script_dir = path_join (build_dir script_dir) [''app_icon_1024.png'']"

definition appiconset :: "string \<Rightarrow> string" where
  "appiconset script_dir = path_join script_dir [''..'', ''Assets.xcassets'', ''AppIcon.appiconset'']"

definition main :: "backend \<Rightarrow> (string \<Rightarrow> bool) \<Rightarrow> string \<Rightarrow> event list \<Rightarrow> unit io_result" where
  "main be writable script_dir tr =
     (let tr = print_line ''Generating NoteTaker app icon...'' tr;
          icon = create_icon be
      in case makedirs writable (build_dir script_dir) tr of
           (Inl e, tr) \<Rightarrow> (Inl e, tr)
         | (Inr u, tr) \<Rightarrow>
             (case save_file writable (master_path script_dir) (PngFile icon) tr of
                (Inl e, tr) \<Rightarrow> (Inl e, tr)
              | (Inr u, tr) \<Rightarrow>
                  (let tr = print_line (''Master icon: '' @ master_path script_dir) tr;
                       tr = print_line
                              (CHR 0x0A # ''Generating icon sizes for '' @ appiconset script_dir @ '':'')
                              tr
                   in case generate_sizes be writable icon (appiconset script_dir) tr of
                        (Inl e, tr) \<Rightarrow> (Inl e, tr)
                      | (Inr u, tr) \<Rightarrow>
                          (Inr (), print_line (CHR 0x0A # ''Done! App icon is ready.'') tr))))"

text \<open>
  The paths a run writes, in order, and the paths and files a list of events records.
\<close>

definition export_paths :: "string \<Rightarrow> string list" where
  "export_paths output_dir =
     map (\<lambda>(sz, scale). output_dir @ ''/'' @ icon_filename sz scale) sizes @
     [output_dir @ ''/Contents.json'']"

definition main_paths :: "string \<Rightarrow> string list" where
  "main_paths script_dir =
     [build_dir script_dir, master_path script_dir] @ export_paths (appiconset script_dir)"

fun written :: "event list \<Rightarrow> string list" where
  "written [] = []"
| "written (Saved p c # es) = p # written es"
| "written (MadeDirs p # es) = p # written es"
| "written (Printed s # es) = written es"

fun saved :: "event list \<Rightarrow> (string \<times> content) list" where
  "saved [] = []"
| "saved (Saved p c # es) = (p, c) # saved es"
| "saved (MadeDirs p # es) = saved es"
| "saved (Printed s # es) = saved es"

text \<open>The outcome of a run over the paths \<open>ps\<close>: the error of the first path that fails.\<close>

definition first_failure :: "(string \<Rightarrow> bool) \<Rightarrow> string list \<Rightarrow> io_error + unit" where
  "first_failure writable ps =
     (case dropWhile writable ps of [] \<Rightarrow> Inr () | p # rest \<Rightarrow> Inl (OSError p))"

subsection \<open>An imaging library to instantiate the parameters\<close>

text \<open>
  The simplest library: no shape covers a pixel, mixing and compositing keep the first
  pixel, resizing changes the dimensions only.
\<close>

definition flat_backend :: backend where
  "flat_backend =
     \<lparr>covers = (\<lambda>s p. False), blend = (\<lambda>m a b. a), over = (\<lambda>a b. a),
      resize = (\<lambda>im sz. im\<lparr>dims := sz\<rparr>)\<rparr>"

subsection \<open>The library's rule for horizontal lines\<close>

text \<open>
  How the imaging library rasterises the lines of the gradient: a horizontal line of width
  0 from \<open>(x0, y)\<close> to \<open>(x1, y)\<close> paints the pixels of one row, \<open>pix y\<close>, from column
  \<open>pix x0\<close> to column \<open>pix x1\<close>, where \<open>pix\<close> turns a coordinate into a pixel index. The
  library truncates; all that is used of \<open>pix\<close> is that it is monotone, commutes with
  whole steps on non-negative coordinates and maps 0 to 0. \<open>row_backend\<close> is the library
  that does this by truncation and draws nothing else.
\<close>

definition line_rule :: "backend \<Rightarrow> (real \<Rightarrow> int) \<Rightarrow> bool" where
  "line_rule be pix =
     ((\<forall>x0 x1 y p. covers be (Line (x0, y) (x1, y) 0) p \<longleftrightarrow>
          snd p = pix y \<and> pix x0 \<le> fst p \<and> fst p \<le> pix x1) \<and>
      (\<forall>y y'. y \<le> y' \<longrightarrow> pix y \<le> pix y') \<and>
      (\<forall>y n. 0 \<le> y \<longrightarrow> pix (y + real n) = pix y + int n) \<and>
      pix 0 = 0)"

definition row_backend :: backend where
  "row_backend =
     \<lparr>covers = (\<lambda>s p. case s of
          Line a b wd \<Rightarrow>
            snd a = snd b \<and> wd = 0 \<and> snd p = py_int (snd a) \<and>
            py_int (fst a) \<le> fst p \<and> fst p \<le> py_int (fst b)
        | _ \<Rightarrow> False),
      blend = (\<lambda>m a b. a), over = (\<lambda>a b. a),
      resize = (\<lambda>im sz. im\<lparr>dims := sz\<rparr>)\<rparr>"

subsection \<open>Points inside a polygon\<close>







subsection \<open>The path builder in floating-point arithmetic\<close>

text \<open>
  The same function with the roundings of the Python floats written out. Every
  \<^verbatim>\<open>+\<close>, \<^verbatim>\<open>-\<close>, \<^verbatim>\<open>*\<close> and \<^verbatim>\<open>/\<close> of the source rounds its exact result, and so does a
  decimal literal; \<^verbatim>\<open>x ** 2\<close>, \<^verbatim>\<open>math.cos\<close>, \<^verbatim>\<open>math.sin\<close> and the constant \<^verbatim>\<open>math.pi\<close>
  come from the C library. The operations follow the source's grouping: Python evaluates
  \<^verbatim>\<open>**\<close> first, then \<^verbatim>\<open>*\<close> and \<^verbatim>\<open>/\<close> from left to right, then \<^verbatim>\<open>+\<close> and \<^verbatim>\<open>-\<close> from
  left to right. The integers \<^verbatim>\<open>1\<close>, \<^verbatim>\<open>2\<close>, \<^verbatim>\<open>3\<close> and the loop index convert exactly.
\<close>

record fpu =
  rnd :: "real \<Rightarrow> real"
  fsqr :: "real \<Rightarrow> real"
  fcos :: "real \<Rightarrow> real"
  fsin :: "real \<Rightarrow> real"
  fpi :: real

definition fadd :: "fpu \<Rightarrow> real \<Rightarrow> real \<Rightarrow> real" where
  "fadd fp a b = rnd fp (a + b)"

definition fsub :: "fpu \<Rightarrow> real \<Rightarrow> real \<Rightarrow> real" where
  "fsub fp a b = rnd fp (a - b)"

definition fmul :: "fpu \<Rightarrow> real \<Rightarrow> real \<Rightarrow> real" where
  "fmul fp a b = rnd fp (a * b)"

definition fdiv :: "fpu \<Rightarrow> real \<Rightarrow> real \<Rightarrow> real" where
  "fdiv fp a b = rnd fp (a / b)"

definition top_left_point_fl :: "fpu \<Rightarrow> real \<Rightarrow> real \<Rightarrow> real \<Rightarrow> real \<Rightarrow> nat \<Rightarrow> point" where
  "top_left_point_fl fp cx cy w h i =
     (let top_y = fsub fp cy (fdiv fp h 2);
          top_r = fmul fp w (rnd fp 0.08);
          angle = fadd fp (fpi fp)
                    (fmul fp (fdiv fp (fpi fp) 2) (fdiv fp (real i) (real (steps div 4))));
          px = fadd fp (fadd fp (fsub fp cx (fdiv fp w 2)) top_r) (fmul fp top_r (fcos fp angle));
          py = fadd fp (fadd fp top_y top_r) (fmul fp top_r (fsin fp angle))
      in (px, py))"

definition top_right_point_fl :: "fpu \<Rightarrow> real \<Rightarrow> real \<Rightarrow> real \<Rightarrow> real \<Rightarrow> nat \<Rightarrow> point" where
  "top_right_point_fl fp cx cy w h i =
     (let top_y = fsub fp cy (fdiv fp h 2);
          top_r = fmul fp w (rnd fp 0.08);
          angle = fadd fp (fdiv fp (fmul fp 3 (fpi fp)) 2)
                    (fmul fp (fdiv fp (fpi fp) 2) (fdiv fp (real i) (real (steps div 4))));
          px = fadd fp (fsub fp (fadd fp cx (fdiv fp w 2)) top_r) (fmul fp top_r (fcos fp angle));
          py = fadd fp (fadd fp top_y top_r) (fmul fp top_r (fsin fp angle))
      in (px, py))"

text \<open>
  \<^verbatim>\<open>(1 - t) ** 2 * p0 + 2 * (1 - t) * t * p1 + t ** 2 * p2\<close> with its roundings.
\<close>

definition quad_bezier_fl :: "fpu \<Rightarrow> real \<Rightarrow> real \<Rightarrow> real \<Rightarrow> real \<Rightarrow> real" where
  "quad_bezier_fl fp a b c t =
     fadd fp
       (fadd fp (fmul fp (fsqr fp (fsub fp 1 t)) a)
                (fmul fp (fmul fp (fmul fp 2 (fsub fp 1 t)) t) b))
       (fmul fp (fsqr fp t) c)"

definition right_curve_point_fl :: "fpu \<Rightarrow> real \<Rightarrow> real \<Rightarrow> real \<Rightarrow> real \<Rightarrow> nat \<Rightarrow> point" where
  "right_curve_point_fl fp cx cy w h i =
     (let top_y = fsub fp cy (fdiv fp h 2);
          bot_y = fadd fp cy (fdiv fp h 2);
          straight_end = fadd fp top_y (fmul fp h (rnd fp 0.50));
          t = fdiv fp (real i) (real steps);
          p0 = (fadd fp cx (fdiv fp w 2), straight_end);
          p1 = (fadd fp cx (fmul fp w (rnd fp 0.25)),
                fadd fp straight_end (fmul fp h (rnd fp 0.35)));
          p2 = (cx, bot_y);
          px = quad_bezier_fl fp (fst p0) (fst p1) (fst p2) t;
          py = quad_bezier_fl fp (snd p0) (snd p1) (snd p2) t
      in (px, py))"

definition left_curve_point_fl :: "fpu \<Rightarrow> real \<Rightarrow> real \<Rightarrow> real \<Rightarrow> real \<Rightarrow> nat \<Rightarrow> point" where
  "left_curve_point_fl fp cx cy w h i =
     (let top_y = fsub fp cy (fdiv fp h 2);
          bot_y = fadd fp cy (fdiv fp h 2);
          straight_end = fadd fp top_y (fmul fp h (rnd fp 0.50));
          t = fdiv fp (real i) (real steps);
          p0 = (cx, bot_y);
          p1 = (fsub fp cx (fmul fp w (rnd fp 0.25)),
                fadd fp straight_end (fmul fp h (rnd fp 0.35)));
          p2 = (fsub fp cx (fdiv fp w 2), straight_end);
          px = quad_bezier_fl fp (fst p0) (fst p1) (fst p2) t;
          py = quad_bezier_fl fp (snd p0) (snd p1) (snd p2) t
      in (px, py))"

definition make_shield_path_fl :: "fpu \<Rightarrow> real \<Rightarrow> real \<Rightarrow> real \<Rightarrow> real \<Rightarrow> point list" where
  "make_shield_path_fl fp cx cy w h =
     (let points = [];
          top_y = fsub fp cy (fdiv fp h 2);
          bot_y = fadd fp cy (fdiv fp h 2);
          top_r = fmul fp w (rnd fp 0.08);
          points = append_each (top_left_point_fl fp cx cy w h) [0 ..< steps div 4 + 1] points;
          points = append_each (top_right_point_fl fp cx cy w h) [0 ..< steps div 4 + 1] points;
          straight_end = fadd fp top_y (fmul fp h (rnd fp 0.50));
          points = points @ [(fadd fp cx (fdiv fp w 2), straight_end)];
          points = append_each (right_curve_point_fl fp cx cy w h) [1 ..< steps + 1] points;
          points = append_each (left_curve_point_fl fp cx cy w h) [1 ..< steps + 1] points;
          points = points @ [(fsub fp cx (fdiv fp w 2), fadd fp top_y top_r)]
      in points)"

text \<open>The two points the function appends outside the loops.\<close>

definition right_side_end_fl :: "fpu \<Rightarrow> real \<Rightarrow> real \<Rightarrow> real \<Rightarrow> real \<Rightarrow> point" where
  "right_side_end_fl fp cx cy w h =
     (fadd fp cx (fdiv fp w 2), fadd fp (fsub fp cy (fdiv fp h 2)) (fmul fp h (rnd fp 0.50)))"

definition left_side_end_fl :: "fpu \<Rightarrow> real \<Rightarrow> real \<Rightarrow> real \<Rightarrow> real \<Rightarrow> point" where
  "left_side_end_fl fp cx cy w h =
     (fsub fp cx (fdiv fp w 2), fadd fp (fsub fp cy (fdiv fp h 2)) (fmul fp w (rnd fp 0.08)))"

text \<open>
  The standard model of floating-point arithmetic with unit roundoff \<open>u\<close>: a rounded
  result differs from the exact one by at most the fraction \<open>u\<close> of it, the library's
  cosine and sine are within \<open>u\<close> of the exact ones, and \<^verbatim>\<open>math.pi\<close> is \<open>pi\<close> rounded.
  The doubles of Python satisfy it with \<open>u = 2 ^ -52\<close> when the C library's functions are
  accurate to one unit in the last place and no result overflows or underflows.
  \<open>exact_fpu\<close> is arithmetic without rounding, in which the function is \<open>make_shield_path\<close>
  above; \<open>coarse_fpu\<close> is an arithmetic whose every result is too large by one part in
  2000.
\<close>

definition standard_model :: "real \<Rightarrow> fpu \<Rightarrow> bool" where
  "standard_model u fp =
     (0 \<le> u \<and> u \<le> 1 / 1000 \<and>
      (\<forall>x. \<bar>rnd fp x - x\<bar> \<le> u * \<bar>x\<bar>) \<and>
      (\<forall>x. \<bar>fsqr fp x - x\<^sup>2\<bar> \<le> u * x\<^sup>2) \<and>
      (\<forall>x. \<bar>fcos fp x - cos x\<bar> \<le> u) \<and>
      (\<forall>x. \<bar>fsin fp x - sin x\<bar> \<le> u) \<and>
      \<bar>fpi fp - pi\<bar> \<le> u * pi)"

definition exact_fpu :: fpu where
  "exact_fpu = \<lparr>rnd = (\<lambda>x. x), fsqr = (\<lambda>x. x\<^sup>2), fcos = cos, fsin = sin, fpi = pi\<rparr>"

definition coarse_fpu :: fpu where
  "coarse_fpu =
     \<lparr>rnd = (\<lambda>x. x * (1 + 1 / 2000)), fsqr = (\<lambda>x. x\<^sup>2 * (1 + 1 / 2000)),
      fcos = cos, fsin = sin, fpi = pi\<rparr>"

text \<open>
  The size of the arguments, the bounding box enlarged by \<open>d\<close> on each side, and the
  bookkeeping of an error analysis: \<open>approx u c m x x0\<close> says that the computed \<open>x\<close> is
  within \<open>c u m\<close> of the exact \<open>x0\<close>, whose size is at most \<open>m\<close>.
\<close>

definition extent :: "real \<Rightarrow> real \<Rightarrow> real \<Rightarrow> real \<Rightarrow> real" where
  "extent cx cy w h = \<bar>cx\<bar> + \<bar>cy\<bar> + w + h"

definition in_bbox_within :: "real \<Rightarrow> real \<Rightarrow> real \<Rightarrow> real \<Rightarrow> real \<Rightarrow> point \<Rightarrow> bool" where
  "in_bbox_within d cx cy w h p =
     (cx - w / 2 - d \<le> fst p \<and> fst p \<le> cx + w / 2 + d \<and>
      cy - h / 2 - d \<le> snd p \<and> snd p \<le> cy + h / 2 + d)"

definition approx :: "real \<Rightarrow> real \<Rightarrow> real \<Rightarrow> real \<Rightarrow> real \<Rightarrow> bool" where
  "approx u c m x x0 = (\<bar>x - x0\<bar> \<le> c * u * m \<and> \<bar>x0\<bar> \<le> m)"

section \<open>Properties of the path builder\<close>

lemma append_each_map: "append_each body is points = points @ map body is"
  by (induction "is" arbitrary: points) simp_all

lemma make_shield_path_pieces:
  "make_shield_path cx cy w h =
     top_left_corner cx cy w h @ top_right_corner cx cy w h @ [right_side_end cx cy w h] @
     right_curve cx cy w h @ left_curve cx cy w h @ [left_side_end cx cy w h]"
  by (simp add: make_shield_path_def Let_def append_each_map steps_def top_left_corner_def
      top_right_corner_def right_side_end_def right_curve_def left_curve_def left_side_end_def)

lemma sin_3pi2: "sin (3 * pi / 2) = -1"
  using sin_3over2_pi by (simp add: field_simps)

lemma cos_3pi2: "cos (3 * pi / 2) = 0"
  using cos_3over2_pi by (simp add: field_simps)

lemma top_left_point_first: "top_left_point cx cy w h 0 = (cx - w / 2, cy - h / 2 + w * 0.08)"
  by (simp add: top_left_point_def Let_def)

lemma top_left_point_last: "top_left_point cx cy w h 10 = (cx - w / 2 + w * 0.08, cy - h / 2)"
  by (simp add: top_left_point_def Let_def steps_def sin_3pi2 cos_3pi2)

lemma top_right_point_first: "top_right_point cx cy w h 0 = (cx + w / 2 - w * 0.08, cy - h / 2)"
  by (simp add: top_right_point_def Let_def sin_3pi2 cos_3pi2)

lemma top_right_point_last: "top_right_point cx cy w h 10 = (cx + w / 2, cy - h / 2 + w * 0.08)"
  by (simp add: top_right_point_def Let_def steps_def)

lemma right_curve_point_closed:
  "right_curve_point cx cy w h i =
     (cx + (w / 2) * (1 - real i / 40), cy + h * (real i / 40) * (0.7 - 0.2 * (real i / 40)))"
  unfolding right_curve_point_def Let_def steps_def quad_bezier_def power2_eq_square fst_conv snd_conv prod.inject
  by (auto simp: field_simps)

lemma left_curve_point_closed:
  "left_curve_point cx cy w h i =
     (cx - (w / 2) * (real i / 40), cy + h * (1 - real i / 40) * (0.5 + 0.2 * (real i / 40)))"
  unfolding left_curve_point_def Let_def steps_def quad_bezier_def power2_eq_square fst_conv snd_conv prod.inject
  by (auto simp: field_simps)



lemma quarter_angle: "i \<le> 10 \<Longrightarrow> 0 \<le> (pi / 2) * (real i / real (steps div 4)) \<and> (pi / 2) * (real i / real (steps div 4)) \<le> pi / 2"
  by (simp add: steps_def field_simps)

lemma top_left_point_trig:
  "top_left_point cx cy w h i =
     (let x = (pi / 2) * (real i / real (steps div 4))
      in (cx - w / 2 + w * 0.08 - w * 0.08 * cos x, cy - h / 2 + w * 0.08 - w * 0.08 * sin x))"
  by (simp add: top_left_point_def Let_def)

lemma top_right_point_trig:
  "top_right_point cx cy w h i =
     (let x = (pi / 2) * (real i / real (steps div 4))
      in (cx + w / 2 - w * 0.08 + w * 0.08 * sin x, cy - h / 2 + w * 0.08 - w * 0.08 * cos x))"
  by (simp add: top_right_point_def Let_def cos_add sin_add sin_3pi2 cos_3pi2)

lemma scaled_unit:
  fixes r c :: real
  assumes "0 \<le> r" "0 \<le> c" "c \<le> 1"
  shows "0 \<le> r * c" "r * c \<le> r"
  using assms by (simp_all add: mult_left_le)

lemma top_left_point_in_bbox:
  assumes "0 \<le> w" "w * 0.08 \<le> h" "i \<le> 10"
  shows "in_bbox cx cy w h (top_left_point cx cy w h i)"
proof -
  define x where "x = (pi / 2) * (real i / real (steps div 4))"
  have x: "0 \<le> x" "x \<le> pi / 2"
    using quarter_angle [OF assms(3)] by (simp_all add: x_def)
  have c: "0 \<le> cos x" "cos x \<le> 1" and s: "0 \<le> sin x" "sin x \<le> 1"
    using x by (simp_all add: cos_ge_zero sin_ge_zero)
  define r where "r = w * 0.08"
  have r: "0 \<le> r" "r \<le> w" "r \<le> h" using assms(1,2) by (simp_all add: r_def)
  note rc = scaled_unit [OF r(1) c] and rs = scaled_unit [OF r(1) s]
  show ?thesis
    unfolding top_left_point_trig Let_def x_def [symmetric] r_def [symmetric] in_bbox_def fst_conv snd_conv
    using rc rs r by linarith
qed

lemma top_right_point_in_bbox:
  assumes "0 \<le> w" "w * 0.08 \<le> h" "i \<le> 10"
  shows "in_bbox cx cy w h (top_right_point cx cy w h i)"
proof -
  define x where "x = (pi / 2) * (real i / real (steps div 4))"
  have x: "0 \<le> x" "x \<le> pi / 2"
    using quarter_angle [OF assms(3)] by (simp_all add: x_def)
  have c: "0 \<le> cos x" "cos x \<le> 1" and s: "0 \<le> sin x" "sin x \<le> 1"
    using x by (simp_all add: cos_ge_zero sin_ge_zero)
  define r where "r = w * 0.08"
  have r: "0 \<le> r" "r \<le> w" "r \<le> h" using assms(1,2) by (simp_all add: r_def)
  note rc = scaled_unit [OF r(1) c] and rs = scaled_unit [OF r(1) s]
  show ?thesis
    unfolding top_right_point_trig Let_def x_def [symmetric] r_def [symmetric] in_bbox_def fst_conv snd_conv
    using rc rs r by linarith
qed

lemma curve_param: "i \<le> 40 \<Longrightarrow> 0 \<le> real i / 40 \<and> real i / 40 \<le> 1"
  by simp

lemma right_curve_point_in_bbox:
  assumes "0 \<le> w" "0 \<le> h" "i \<le> 40"
  shows "in_bbox cx cy w h (right_curve_point cx cy w h i)"
proof -
  define t where "t = real i / 40"
  define A where "A = (w / 2) * (1 - t)"
  define B where "B = h * (t * (0.7 - 0.2 * t))"
  have t: "0 \<le> t" "t \<le> 1" using curve_param [OF assms(3)] by (simp_all add: t_def)
  have a: "0 \<le> A" "A \<le> w / 2"
    unfolding A_def using scaled_unit [of "w / 2" "1 - t"] assms(1) t by simp_all
  have lo: "0 \<le> t * (0.7 - 0.2 * t)" using t by simp
  have "0 \<le> (1 - t) * (0.5 - 0.2 * t)" using t by simp
  moreover have "1 / 2 - t * (0.7 - 0.2 * t) = (1 - t) * (0.5 - 0.2 * t)"
    by (simp add: field_simps)
  ultimately have hi: "t * (0.7 - 0.2 * t) \<le> 1 / 2" by linarith
  have b: "0 \<le> B" "B \<le> h / 2"
    unfolding B_def using assms(2) lo mult_left_mono [OF hi assms(2)] by simp_all
  have eq: "right_curve_point cx cy w h i = (cx + A, cy + B)"
    by (simp add: right_curve_point_closed A_def B_def t_def mult.assoc)
  show ?thesis
    unfolding eq in_bbox_def fst_conv snd_conv using a b assms(1,2) by linarith
qed

lemma left_curve_point_in_bbox:
  assumes "0 \<le> w" "0 \<le> h" "i \<le> 40"
  shows "in_bbox cx cy w h (left_curve_point cx cy w h i)"
proof -
  define t where "t = real i / 40"
  define A where "A = (w / 2) * t"
  define B where "B = h * ((1 - t) * (0.5 + 0.2 * t))"
  have t: "0 \<le> t" "t \<le> 1" using curve_param [OF assms(3)] by (simp_all add: t_def)
  have a: "0 \<le> A" "A \<le> w / 2"
    unfolding A_def using scaled_unit [of "w / 2" t] assms(1) t by simp_all
  have lo: "0 \<le> (1 - t) * (0.5 + 0.2 * t)" using t by simp
  have "0 \<le> t * (0.3 + 0.2 * t)" using t by simp
  moreover have "1 / 2 - (1 - t) * (0.5 + 0.2 * t) = t * (0.3 + 0.2 * t)"
    by (simp add: field_simps)
  ultimately have hi: "(1 - t) * (0.5 + 0.2 * t) \<le> 1 / 2" by linarith
  have b: "0 \<le> B" "B \<le> h / 2"
    unfolding B_def using assms(2) lo mult_left_mono [OF hi assms(2)] by simp_all
  have eq: "left_curve_point cx cy w h i = (cx - A, cy + B)"
    by (simp add: left_curve_point_closed A_def B_def t_def mult.assoc)
  show ?thesis
    unfolding eq in_bbox_def fst_conv snd_conv using a b assms(1,2) by linarith
qed

lemma list_all_map_upt:
  assumes "\<And>i. i < n \<Longrightarrow> P (f i)"
  shows "list_all P (map f [m ..< n])"
  using assms by (simp add: list_all_iff)




lemma shield_path_in_bbox_only_if:
  assumes "list_all (in_bbox cx cy w h) (make_shield_path cx cy w h)"
  shows "w * 0.08 \<le> h"
proof -
  have "in_bbox cx cy w h (left_side_end cx cy w h)"
    using assms by (simp add: make_shield_path_pieces)
  then show ?thesis by (simp add: in_bbox_def left_side_end_def)
qed

lemma on_circle_trig:
  fixes r x :: real
  shows "(r * cos x)\<^sup>2 + (r * sin x)\<^sup>2 = r\<^sup>2"
proof -
  have "(r * cos x)\<^sup>2 + (r * sin x)\<^sup>2 = r\<^sup>2 * ((cos x)\<^sup>2 + (sin x)\<^sup>2)"
    by (simp only: power_mult_distrib distrib_left)
  also have "\<dots> = r\<^sup>2" by simp
  finally show ?thesis .
qed

subsection \<open>Shape of the outline\<close>

lemma on_circle_polar: "on_circle (a, b) r (a + r * cos x, b + r * sin x)"
  by (simp add: on_circle_def on_circle_trig)

lemma top_left_corner_on_circle:
  "list_all (on_circle (cx - w / 2 + w * 0.08, cy - h / 2 + w * 0.08) (w * 0.08))
     (top_left_corner cx cy w h)"
  unfolding top_left_corner_def top_left_point_def Let_def
  by (rule list_all_map_upt) (rule on_circle_polar)

lemma top_right_corner_on_circle:
  "list_all (on_circle (cx + w / 2 - w * 0.08, cy - h / 2 + w * 0.08) (w * 0.08))
     (top_right_corner cx cy w h)"
  unfolding top_right_corner_def top_right_point_def Let_def
  by (rule list_all_map_upt) (rule on_circle_polar)

lemma upt_0_11: "[0 ..< 11] = 0 # [1 ..< 10] @ [10::nat]"
  by (simp add: upt_rec)


lemma top_left_corner_ends:
  "hd (top_left_corner cx cy w h) = (cx - w / 2, cy - h / 2 + w * 0.08)"
  "last (top_left_corner cx cy w h) = (cx - w / 2 + w * 0.08, cy - h / 2)"
  by (simp_all add: top_left_corner_def upt_0_11 top_left_point_first top_left_point_last)

lemma top_right_corner_ends:
  "hd (top_right_corner cx cy w h) = (cx + w / 2 - w * 0.08, cy - h / 2)"
  "last (top_right_corner cx cy w h) = (cx + w / 2, cy - h / 2 + w * 0.08)"
  by (simp_all add: top_right_corner_def upt_0_11 top_right_point_first top_right_point_last)

lemma straight_end_mid: "cy - h / 2 + h * 0.50 = (cy::real)"
  by simp

lemma right_curve_point_bezier:
  "right_curve_point cx cy w h i =
     bezier_point (cx + w / 2, cy) (cx + w * 0.25, cy + h * 0.35) (cx, cy + h / 2) (real i / 40)"
  unfolding right_curve_point_def Let_def bezier_point_def steps_def fst_conv snd_conv
    straight_end_mid
  by simp

lemma left_curve_point_bezier:
  "left_curve_point cx cy w h i =
     bezier_point (cx, cy + h / 2) (cx - w * 0.25, cy + h * 0.35) (cx - w / 2, cy) (real i / 40)"
  unfolding left_curve_point_def Let_def bezier_point_def steps_def fst_conv snd_conv
    straight_end_mid
  by simp

lemma right_curve_bezier:
  "right_curve cx cy w h =
     map (\<lambda>i. bezier_point (cx + w / 2, cy) (cx + w * 0.25, cy + h * 0.35) (cx, cy + h / 2)
                (real i / 40)) [1 ..< 41]"
  unfolding right_curve_def right_curve_point_bezier ..

lemma left_curve_bezier:
  "left_curve cx cy w h =
     map (\<lambda>i. bezier_point (cx, cy + h / 2) (cx - w * 0.25, cy + h * 0.35) (cx - w / 2, cy)
                (real i / 40)) [1 ..< 41]"
  unfolding left_curve_def left_curve_point_bezier ..

lemma right_curve_last: "last (right_curve cx cy w h) = (cx, cy + h / 2)"
  by (simp add: right_curve_def last_map last_upt right_curve_point_closed)

lemma left_curve_last: "last (left_curve cx cy w h) = (cx - w / 2, cy)"
  by (simp add: left_curve_def last_map last_upt left_curve_point_closed)

lemma right_curve_xs:
  "map fst (right_curve cx cy w h) = map (\<lambda>i. cx + (w / 2) * (1 - real i / 40)) [1 ..< 41]"
  by (simp add: right_curve_def right_curve_point_closed comp_def)

lemma left_curve_xs:
  "map fst (left_curve cx cy w h) = map (\<lambda>i. cx - (w / 2) * (real i / 40)) [1 ..< 41]"
  by (simp add: left_curve_def left_curve_point_closed comp_def)

lemma right_side_end_mid: "right_side_end cx cy w h = (cx + w / 2, cy)"
  by (simp add: right_side_end_def)


text \<open>
  Claim C4. For every centre, width and height the path is, in this order:
  the top-left corner, 11 points on the circle of radius \<open>0.08 w\<close> from the left edge
  up to the top edge; the top-right corner, 11 points on the circle of the same radius
  from the top edge down to the right edge (the flat top joins the two corners at
  \<open>y = cy - h/2\<close>); the end of the straight right side, at mid-height \<open>y = cy\<close>;
  the quadratic curve with control points \<open>(cx + w/2, cy)\<close>, \<open>(cx + w/4, cy + 0.35 h)\<close>,
  \<open>(cx, cy + h/2)\<close>, sampled at \<open>t = i/40\<close> for \<open>i = 1, ..., 40\<close>, whose abscissa moves
  linearly inward and which ends at the bottom centre; its mirror image from the bottom
  centre to the left edge at mid-height; and the end of the straight left side.
\<close>

theorem shield_path_shape:
  "make_shield_path cx cy w h =
     top_left_corner cx cy w h @ top_right_corner cx cy w h @ [right_side_end cx cy w h] @
     right_curve cx cy w h @ left_curve cx cy w h @ [left_side_end cx cy w h] \<and>
   list_all (on_circle (cx - w / 2 + w * 0.08, cy - h / 2 + w * 0.08) (w * 0.08))
     (top_left_corner cx cy w h) \<and>
   hd (top_left_corner cx cy w h) = (cx - w / 2, cy - h / 2 + w * 0.08) \<and>
   last (top_left_corner cx cy w h) = (cx - w / 2 + w * 0.08, cy - h / 2) \<and>
   list_all (on_circle (cx + w / 2 - w * 0.08, cy - h / 2 + w * 0.08) (w * 0.08))
     (top_right_corner cx cy w h) \<and>
   hd (top_right_corner cx cy w h) = (cx + w / 2 - w * 0.08, cy - h / 2) \<and>
   last (top_right_corner cx cy w h) = (cx + w / 2, cy - h / 2 + w * 0.08) \<and>
   right_side_end cx cy w h = (cx + w / 2, cy) \<and>
   right_curve cx cy w h =
     map (\<lambda>i. bezier_point (cx + w / 2, cy) (cx + w * 0.25, cy + h * 0.35) (cx, cy + h / 2)
                (real i / 40)) [1 ..< 41] \<and>
   map fst (right_curve cx cy w h) = map (\<lambda>i. cx + (w / 2) * (1 - real i / 40)) [1 ..< 41] \<and>
   last (right_curve cx cy w h) = (cx, cy + h / 2) \<and>
   left_curve cx cy w h =
     map (\<lambda>i. bezier_point (cx, cy + h / 2) (cx - w * 0.25, cy + h * 0.35) (cx - w / 2, cy)
                (real i / 40)) [1 ..< 41] \<and>
   map fst (left_curve cx cy w h) = map (\<lambda>i. cx - (w / 2) * (real i / 40)) [1 ..< 41] \<and>
   last (left_curve cx cy w h) = (cx - w / 2, cy) \<and>
   left_side_end cx cy w h = (cx - w / 2, cy - h / 2 + w * 0.08)"
  using make_shield_path_pieces [of cx cy w h]
    top_left_corner_on_circle [of cx w cy h] top_left_corner_ends [of cx cy w h]
    top_right_corner_on_circle [of cx w cy h] top_right_corner_ends [of cx cy w h]
    right_side_end_mid [of cx cy w h]
    right_curve_bezier [of cx cy w h] right_curve_xs [of cx cy w h]
    right_curve_last [of cx cy w h]
    left_curve_bezier [of cx cy w h] left_curve_xs [of cx cy w h] left_curve_last [of cx cy w h]
    left_side_end_def [of cx cy w h]
  by blast

subsection \<open>Number of points\<close>

text \<open>
  Claim C10. Whatever the centre, the width and the height, the path builder returns
  exactly 104 points: 11 for each rounded top corner, one at the end of each straight
  side, and 40 for each of the two curves.
\<close>

theorem shield_path_point_count:
  "length (make_shield_path cx cy w h) = 104 \<and>
   make_shield_path cx cy w h =
     top_left_corner cx cy w h @ top_right_corner cx cy w h @ [right_side_end cx cy w h] @
     right_curve cx cy w h @ left_curve cx cy w h @ [left_side_end cx cy w h] \<and>
   length (top_left_corner cx cy w h) = 11 \<and>
   length (top_right_corner cx cy w h) = 11 \<and>
   length (right_curve cx cy w h) = 40 \<and>
   length (left_curve cx cy w h) = 40"
proof -
  have "length (top_left_corner cx cy w h) = 11" "length (top_right_corner cx cy w h) = 11"
    "length (right_curve cx cy w h) = 40" "length (left_curve cx cy w h) = 40"
    by (simp_all add: top_left_corner_def top_right_corner_def right_curve_def left_curve_def)
  then show ?thesis by (simp add: make_shield_path_pieces)
qed

subsection \<open>Closure\<close>


subsection \<open>Rounding errors of the path builder\<close>

text \<open>
  A forward error analysis of \<open>make_shield_path_fl\<close>: each operation of the standard model
  adds its rounding error to the errors of its arguments, and every coordinate the
  function computes ends within \<open>128 u (|cx| + |cy| + w + h)\<close> of its exact value.
\<close>

lemma approx_leaf: "\<bar>x\<bar> \<le> m \<Longrightarrow> approx u 0 m x x"
  by (simp add: approx_def)

lemma approx_retarget:
  assumes "approx u c m x x0" "\<bar>x0\<bar> \<le> m'" "c * m \<le> c' * m'" "0 \<le> u"
  shows "approx u c' m' x x0"
proof -
  have "c * u * m = u * (c * m)" by simp
  also have "\<dots> \<le> u * (c' * m')" using assms(3,4) by (rule mult_left_mono)
  finally show ?thesis using assms(1,2) by (simp add: approx_def mult.commute mult.left_commute)
qed

lemma approx_rounded:
  assumes "approx u c m x x0" "\<bar>y - x\<bar> \<le> u * \<bar>x\<bar>" "0 \<le> u" "u \<le> 1 / 1000" "0 \<le> c" "c \<le> 1000"
  shows "approx u (c + 2) m y x0"
proof -
  have e: "\<bar>x - x0\<bar> \<le> c * u * m" and m: "\<bar>x0\<bar> \<le> m"
    using assms(1) by (simp_all add: approx_def)
  have m0: "0 \<le> m" using m by linarith
  have "c * u \<le> 1000 * (1 / 1000)"
    using assms(3-6) by (intro mult_mono) simp_all
  then have cu: "c * u \<le> 1" by simp
  have "c * u * m \<le> 1 * m" using cu m0 by (rule mult_right_mono)
  then have "\<bar>x\<bar> \<le> 2 * m" using e m by linarith
  then have "u * \<bar>x\<bar> \<le> u * (2 * m)" using assms(3) by (rule mult_left_mono)
  then have "\<bar>y - x0\<bar> \<le> u * (2 * m) + c * u * m" using assms(2) e by linarith
  also have "\<dots> = (c + 2) * u * m" by (simp add: algebra_simps)
  finally show ?thesis using m by (simp add: approx_def)
qed

lemma approx_sum:
  assumes "approx u c1 m1 a a0" "approx u c2 m2 b b0" "0 \<le> u"
    "c1 * m1 + c2 * m2 \<le> c * m" "\<bar>a0 + b0\<bar> \<le> m"
  shows "approx u c m (a + b) (a0 + b0)"
proof -
  have "\<bar>(a + b) - (a0 + b0)\<bar> \<le> c1 * u * m1 + c2 * u * m2"
    using assms(1,2) by (simp add: approx_def) linarith
  also have "\<dots> = u * (c1 * m1 + c2 * m2)" by (simp add: algebra_simps)
  also have "\<dots> \<le> u * (c * m)" using assms(4,3) by (rule mult_left_mono)
  finally show ?thesis using assms(5) by (simp add: approx_def mult.commute mult.left_commute)
qed

lemma approx_diff:
  assumes "approx u c1 m1 a a0" "approx u c2 m2 b b0" "0 \<le> u"
    "c1 * m1 + c2 * m2 \<le> c * m" "\<bar>a0 - b0\<bar> \<le> m"
  shows "approx u c m (a - b) (a0 - b0)"
proof -
  have "\<bar>(a - b) - (a0 - b0)\<bar> \<le> c1 * u * m1 + c2 * u * m2"
    using assms(1,2) by (simp add: approx_def) linarith
  also have "\<dots> = u * (c1 * m1 + c2 * m2)" by (simp add: algebra_simps)
  also have "\<dots> \<le> u * (c * m)" using assms(4,3) by (rule mult_left_mono)
  finally show ?thesis using assms(5) by (simp add: approx_def mult.commute mult.left_commute)
qed

lemma approx_prod:
  assumes "approx u c1 m1 a a0" "approx u c2 m2 b b0" "0 \<le> u" "u \<le> 1 / 1000"
    "0 \<le> c1" "0 \<le> c2" "c1 * c2 \<le> 1000"
  shows "approx u (c1 + c2 + 1) (m1 * m2) (a * b) (a0 * b0)"
proof -
  have ea: "\<bar>a - a0\<bar> \<le> c1 * u * m1" and ma: "\<bar>a0\<bar> \<le> m1"
    and eb: "\<bar>b - b0\<bar> \<le> c2 * u * m2" and mb: "\<bar>b0\<bar> \<le> m2"
    using assms(1,2) by (simp_all add: approx_def)
  have m1: "0 \<le> m1" and m2: "0 \<le> m2" using ma mb by linarith+
  have "a * b - a0 * b0 = (a - a0) * b0 + a0 * (b - b0) + (a - a0) * (b - b0)"
    by (simp add: algebra_simps)
  then have "\<bar>a * b - a0 * b0\<bar> \<le>
      \<bar>(a - a0) * b0\<bar> + \<bar>a0 * (b - b0)\<bar> + \<bar>(a - a0) * (b - b0)\<bar>"
    by linarith
  then have "\<bar>a * b - a0 * b0\<bar> \<le>
      \<bar>a - a0\<bar> * \<bar>b0\<bar> + \<bar>a0\<bar> * \<bar>b - b0\<bar> + \<bar>a - a0\<bar> * \<bar>b - b0\<bar>"
    by (simp only: abs_mult)
  moreover have "\<bar>a - a0\<bar> * \<bar>b0\<bar> \<le> (c1 * u * m1) * m2"
    using ea mb by (intro mult_mono) (simp_all add: assms m1)
  moreover have "\<bar>a0\<bar> * \<bar>b - b0\<bar> \<le> m1 * (c2 * u * m2)"
    using ma eb by (intro mult_mono) (simp_all add: m1)
  moreover have "\<bar>a - a0\<bar> * \<bar>b - b0\<bar> \<le> (c1 * u * m1) * (c2 * u * m2)"
    using ea eb by (intro mult_mono) (simp_all add: assms m1)
  moreover have "(c1 * u * m1) * (c2 * u * m2) \<le> u * (m1 * m2)"
  proof -
    have "c1 * c2 * u \<le> 1000 * (1 / 1000)"
      using assms(3-7) by (intro mult_mono) simp_all
    then have "c1 * c2 * u \<le> 1" by simp
    then have "(c1 * c2 * u) * (u * (m1 * m2)) \<le> 1 * (u * (m1 * m2))"
      by (rule mult_right_mono) (simp add: assms m1 m2)
    then show ?thesis by (simp add: algebra_simps)
  qed
  ultimately have "\<bar>a * b - a0 * b0\<bar> \<le>
      (c1 * u * m1) * m2 + m1 * (c2 * u * m2) + u * (m1 * m2)"
    by linarith
  also have "\<dots> = (c1 + c2 + 1) * u * (m1 * m2)" by (simp add: algebra_simps)
  finally have "\<bar>a * b - a0 * b0\<bar> \<le> (c1 + c2 + 1) * u * (m1 * m2)" .
  moreover have "\<bar>a0 * b0\<bar> \<le> m1 * m2"
    unfolding abs_mult using ma mb by (intro mult_mono) simp_all
  ultimately show ?thesis by (simp add: approx_def)
qed


lemma approx_mag: "approx u c m x x0 \<Longrightarrow> \<bar>x0\<bar> \<le> m"
  by (simp add: approx_def)

lemma approx_err: "approx u c m x x0 \<Longrightarrow> \<bar>x - x0\<bar> \<le> c * u * m"
  by (simp add: approx_def)

lemma sm_u:
  assumes "standard_model u fp"
  shows "0 \<le> u" "u \<le> 1 / 1000"
  using assms by (simp_all add: standard_model_def)

lemma sm_rnd: "standard_model u fp \<Longrightarrow> \<bar>rnd fp x - x\<bar> \<le> u * \<bar>x\<bar>"
  by (simp add: standard_model_def)

lemma sm_sqr: "standard_model u fp \<Longrightarrow> \<bar>fsqr fp x - x * x\<bar> \<le> u * \<bar>x * x\<bar>"
  by (simp add: standard_model_def power2_eq_square abs_mult)

lemma sm_cos: "standard_model u fp \<Longrightarrow> \<bar>fcos fp x - cos x\<bar> \<le> u"
  by (simp add: standard_model_def)

lemma sm_sin: "standard_model u fp \<Longrightarrow> \<bar>fsin fp x - sin x\<bar> \<le> u"
  by (simp add: standard_model_def)

lemma fl_literal:
  assumes "standard_model u fp" "\<bar>x\<bar> \<le> m"
  shows "approx u 2 m (rnd fp x) x"
  using approx_rounded [OF approx_leaf [OF assms(2)] sm_rnd [OF assms(1)] sm_u [OF assms(1)]]
  by simp

lemma fl_pi:
  assumes "standard_model u fp"
  shows "approx u 1 4 (fpi fp) pi"
proof -
  have "\<bar>fpi fp - pi\<bar> \<le> u * pi" using assms by (simp add: standard_model_def)
  also have "\<dots> \<le> u * 4" using sm_u(1) [OF assms] pi_less_4 by (intro mult_left_mono) simp_all
  finally show ?thesis using pi_less_4 pi_gt_zero by (simp add: approx_def)
qed

lemma fl_add:
  assumes "standard_model u fp" "approx u c1 m1 a a0" "approx u c2 m2 b b0"
    "\<bar>a0 + b0\<bar> \<le> m" "c1 * m1 + c2 * m2 + 2 * m \<le> c * m" "2 \<le> c" "c \<le> 1000"
  shows "approx u c m (fadd fp a b) (a0 + b0)"
proof -
  have "c1 * m1 + c2 * m2 \<le> (c - 2) * m" using assms(5) by (simp add: algebra_simps)
  from approx_sum [OF assms(2,3) sm_u(1) [OF assms(1)] this assms(4)]
  have "approx u (c - 2) m (a + b) (a0 + b0)" .
  from approx_rounded [OF this sm_rnd [OF assms(1)] sm_u [OF assms(1)]]
  show ?thesis using assms(6,7) by (simp add: fadd_def)
qed

lemma fl_sub:
  assumes "standard_model u fp" "approx u c1 m1 a a0" "approx u c2 m2 b b0"
    "\<bar>a0 - b0\<bar> \<le> m" "c1 * m1 + c2 * m2 + 2 * m \<le> c * m" "2 \<le> c" "c \<le> 1000"
  shows "approx u c m (fsub fp a b) (a0 - b0)"
proof -
  have "c1 * m1 + c2 * m2 \<le> (c - 2) * m" using assms(5) by (simp add: algebra_simps)
  from approx_diff [OF assms(2,3) sm_u(1) [OF assms(1)] this assms(4)]
  have "approx u (c - 2) m (a - b) (a0 - b0)" .
  from approx_rounded [OF this sm_rnd [OF assms(1)] sm_u [OF assms(1)]]
  show ?thesis using assms(6,7) by (simp add: fsub_def)
qed

lemma fl_mul:
  assumes "standard_model u fp" "approx u c1 m1 a a0" "approx u c2 m2 b b0"
    "0 \<le> c1" "0 \<le> c2" "c1 * c2 \<le> 1000" "c1 + c2 + 3 \<le> c" "c \<le> 1000" "m1 * m2 \<le> m"
  shows "approx u c m (fmul fp a b) (a0 * b0)"
proof -
  note u = sm_u [OF assms(1)]
  have p: "approx u (c1 + c2 + 1) (m1 * m2) (a * b) (a0 * b0)"
    by (rule approx_prod [OF assms(2,3) u assms(4,5,6)])
  have c: "0 \<le> c1 + c2 + 1" "c1 + c2 + 1 \<le> 1000" using assms(4,5,7,8) by simp_all
  from approx_rounded [OF p sm_rnd [OF assms(1)] u c]
  have r: "approx u (c1 + c2 + 3) (m1 * m2) (fmul fp a b) (a0 * b0)"
    by (simp add: fmul_def add.assoc)
  have m: "0 \<le> m1 * m2" using approx_mag [OF p] by linarith
  have "(c1 + c2 + 3) * (m1 * m2) \<le> c * m"
    using assms(7,9) m assms(4,5) by (intro mult_mono) simp_all
  from approx_retarget [OF r _ this u(1)] approx_mag [OF p] assms(9)
  show ?thesis by simp
qed

lemma fl_div:
  assumes "standard_model u fp" "approx u c1 m1 a a0"
    "0 < k" "0 \<le> c1" "c1 + 2 \<le> c" "c \<le> 1000" "m1 / k \<le> m"
  shows "approx u c m (fdiv fp a k) (a0 / k)"
proof -
  note u = sm_u [OF assms(1)]
  have "\<bar>a / k - a0 / k\<bar> = \<bar>a - a0\<bar> / k"
    using assms(3) by (simp add: diff_divide_distrib [symmetric])
  also have "\<dots> \<le> (c1 * u * m1) / k"
    using approx_err [OF assms(2)] assms(3) by (simp add: divide_right_mono)
  finally have e: "\<bar>a / k - a0 / k\<bar> \<le> c1 * u * (m1 / k)" by simp
  have "\<bar>a0 / k\<bar> = \<bar>a0\<bar> / k" using assms(3) by simp
  also have "\<dots> \<le> m1 / k" using approx_mag [OF assms(2)] assms(3) by (simp add: divide_right_mono)
  finally have g: "\<bar>a0 / k\<bar> \<le> m1 / k" .
  have p: "approx u c1 (m1 / k) (a / k) (a0 / k)" using e g by (simp add: approx_def)
  have c: "c1 \<le> 1000" using assms(5,6) by simp
  from approx_rounded [OF p sm_rnd [OF assms(1)] u assms(4) c]
  have r: "approx u (c1 + 2) (m1 / k) (fdiv fp a k) (a0 / k)" by (simp add: fdiv_def)
  have m: "0 \<le> m1 / k" using g by linarith
  have "(c1 + 2) * (m1 / k) \<le> c * m"
    using assms(5,7) m assms(4) by (intro mult_mono) simp_all
  from approx_retarget [OF r _ this u(1)] g assms(7)
  show ?thesis by simp
qed

lemma fl_sqr:
  assumes "standard_model u fp" "approx u c1 m1 a a0"
    "0 \<le> c1" "c1 * c1 \<le> 1000" "2 * c1 + 3 \<le> c" "c \<le> 1000" "m1 * m1 \<le> m"
  shows "approx u c m (fsqr fp a) (a0\<^sup>2)"
proof -
  note u = sm_u [OF assms(1)]
  have p: "approx u (c1 + c1 + 1) (m1 * m1) (a * a) (a0 * a0)"
    by (rule approx_prod [OF assms(2,2) u assms(3,3,4)])
  have c: "0 \<le> c1 + c1 + 1" "c1 + c1 + 1 \<le> 1000" using assms(3,5,6) by simp_all
  from approx_rounded [OF p sm_sqr [OF assms(1)] u c]
  have r: "approx u (c1 + c1 + 3) (m1 * m1) (fsqr fp a) (a0 * a0)"
    by (simp add: add.assoc)
  have m: "0 \<le> m1 * m1" using approx_mag [OF p] by linarith
  have "(c1 + c1 + 3) * (m1 * m1) \<le> c * m"
    using assms(5,7) m assms(3) by (intro mult_mono) simp_all
  from approx_retarget [OF r _ this u(1)] approx_mag [OF p] assms(7)
  show ?thesis by (simp add: power2_eq_square)
qed

lemma cos_lipschitz: "\<bar>cos (a::real) - cos b\<bar> \<le> \<bar>a - b\<bar>"
proof -
  have "\<bar>cos a - cos b\<bar> = 2 * \<bar>sin ((a + b) / 2)\<bar> * \<bar>sin ((b - a) / 2)\<bar>"
    by (simp add: cos_diff_cos abs_mult)
  also have "\<dots> \<le> 2 * 1 * \<bar>(b - a) / 2\<bar>"
    by (intro mult_mono abs_sin_x_le_abs_x) simp_all
  also have "\<dots> = \<bar>a - b\<bar>" by simp
  finally show ?thesis .
qed

lemma sin_lipschitz: "\<bar>sin (a::real) - sin b\<bar> \<le> \<bar>a - b\<bar>"
proof -
  have "\<bar>sin a - sin b\<bar> = 2 * \<bar>sin ((a - b) / 2)\<bar> * \<bar>cos ((a + b) / 2)\<bar>"
    by (simp add: sin_diff_sin abs_mult)
  also have "\<dots> \<le> 2 * \<bar>(a - b) / 2\<bar> * 1"
    by (intro mult_mono abs_sin_x_le_abs_x) simp_all
  also have "\<dots> = \<bar>a - b\<bar>" by simp
  finally show ?thesis .
qed

lemma fl_cos:
  assumes "standard_model u fp" "approx u c1 m1 a a0" "c1 * m1 + 1 \<le> c"
  shows "approx u c 1 (fcos fp a) (cos a0)"
proof -
  note u = sm_u [OF assms(1)]
  have "\<bar>fcos fp a - cos a0\<bar> \<le> u + c1 * u * m1"
    using sm_cos [OF assms(1), of a] cos_lipschitz [of a a0] approx_err [OF assms(2)] by linarith
  also have "\<dots> = u * (c1 * m1 + 1)" by (simp add: algebra_simps)
  also have "\<dots> \<le> u * c" using assms(3) u(1) by (rule mult_left_mono)
  finally show ?thesis by (simp add: approx_def mult.commute)
qed

lemma fl_sin:
  assumes "standard_model u fp" "approx u c1 m1 a a0" "c1 * m1 + 1 \<le> c"
  shows "approx u c 1 (fsin fp a) (sin a0)"
proof -
  note u = sm_u [OF assms(1)]
  have "\<bar>fsin fp a - sin a0\<bar> \<le> u + c1 * u * m1"
    using sm_sin [OF assms(1), of a] sin_lipschitz [of a a0] approx_err [OF assms(2)] by linarith
  also have "\<dots> = u * (c1 * m1 + 1)" by (simp add: algebra_simps)
  also have "\<dots> \<le> u * c" using assms(3) u(1) by (rule mult_left_mono)
  finally show ?thesis by (simp add: approx_def mult.commute)
qed

lemma fl_top_r:
  assumes "standard_model u fp" "0 < w" "0 < h"
  shows "approx u 5 (extent cx cy w h * 0.08) (fmul fp w (rnd fp 0.08)) (w * 0.08)"
proof -
  have a: "approx u 0 (extent cx cy w h) w w"
    using assms(2,3) by (intro approx_leaf) (simp add: extent_def)
  have b: "approx u 2 0.08 (rnd fp 0.08) 0.08"
    by (rule fl_literal [OF assms(1)]) simp
  show ?thesis by (rule fl_mul [OF assms(1) a b]) simp_all
qed

lemma fl_half:
  assumes "standard_model u fp" "0 \<le> x" "x \<le> m"
  shows "approx u 2 m (fdiv fp x 2) (x / 2)"
proof -
  have a: "approx u 0 m x x" using assms(2,3) by (intro approx_leaf) simp
  show ?thesis by (rule fl_div [OF assms(1) a]) (use assms in simp_all)
qed

lemma fl_left_x:
  assumes "standard_model u fp" "0 < w" "0 < h"
  shows "approx u 4 (extent cx cy w h) (fsub fp cx (fdiv fp w 2)) (cx - w / 2)"
proof -
  have a: "approx u 0 (extent cx cy w h) cx cx"
    using assms(2,3) by (intro approx_leaf) (simp add: extent_def)
  have b: "approx u 2 w (fdiv fp w 2) (w / 2)"
    by (rule fl_half [OF assms(1)]) (use assms in simp_all)
  have m: "\<bar>cx - w / 2\<bar> \<le> extent cx cy w h"
    unfolding extent_def using assms(2,3) by linarith
  have c: "0 * extent cx cy w h + 2 * w + 2 * extent cx cy w h \<le> 4 * extent cx cy w h"
    using assms(2,3) by (simp add: extent_def)
  show ?thesis by (rule fl_sub [OF assms(1) a b m c]) simp_all
qed

lemma fl_right_x:
  assumes "standard_model u fp" "0 < w" "0 < h"
  shows "approx u 4 (extent cx cy w h) (fadd fp cx (fdiv fp w 2)) (cx + w / 2)"
proof -
  have a: "approx u 0 (extent cx cy w h) cx cx"
    using assms(2,3) by (intro approx_leaf) (simp add: extent_def)
  have b: "approx u 2 w (fdiv fp w 2) (w / 2)"
    by (rule fl_half [OF assms(1)]) (use assms in simp_all)
  have m: "\<bar>cx + w / 2\<bar> \<le> extent cx cy w h"
    unfolding extent_def using assms(2,3) by linarith
  have c: "0 * extent cx cy w h + 2 * w + 2 * extent cx cy w h \<le> 4 * extent cx cy w h"
    using assms(2,3) by (simp add: extent_def)
  show ?thesis by (rule fl_add [OF assms(1) a b m c]) simp_all
qed

lemma fl_top_y:
  assumes "standard_model u fp" "0 < w" "0 < h"
  shows "approx u 4 (extent cx cy w h) (fsub fp cy (fdiv fp h 2)) (cy - h / 2)"
proof -
  have a: "approx u 0 (extent cx cy w h) cy cy"
    using assms(2,3) by (intro approx_leaf) (simp add: extent_def)
  have b: "approx u 2 h (fdiv fp h 2) (h / 2)"
    by (rule fl_half [OF assms(1)]) (use assms in simp_all)
  have m: "\<bar>cy - h / 2\<bar> \<le> extent cx cy w h"
    unfolding extent_def using assms(2,3) by linarith
  have c: "0 * extent cx cy w h + 2 * h + 2 * extent cx cy w h \<le> 4 * extent cx cy w h"
    using assms(2,3) by (simp add: extent_def)
  show ?thesis by (rule fl_sub [OF assms(1) a b m c]) simp_all
qed

lemma fl_bot_y:
  assumes "standard_model u fp" "0 < w" "0 < h"
  shows "approx u 4 (extent cx cy w h) (fadd fp cy (fdiv fp h 2)) (cy + h / 2)"
proof -
  have a: "approx u 0 (extent cx cy w h) cy cy"
    using assms(2,3) by (intro approx_leaf) (simp add: extent_def)
  have b: "approx u 2 h (fdiv fp h 2) (h / 2)"
    by (rule fl_half [OF assms(1)]) (use assms in simp_all)
  have m: "\<bar>cy + h / 2\<bar> \<le> extent cx cy w h"
    unfolding extent_def using assms(2,3) by linarith
  have c: "0 * extent cx cy w h + 2 * h + 2 * extent cx cy w h \<le> 4 * extent cx cy w h"
    using assms(2,3) by (simp add: extent_def)
  show ?thesis by (rule fl_add [OF assms(1) a b m c]) simp_all
qed


lemma approx_weaken:
  assumes "approx u c m x x0" "c \<le> c'" "0 \<le> u"
  shows "approx u c' m x x0"
proof -
  have "0 \<le> m" using approx_mag [OF assms(1)] by linarith
  then have "c * m \<le> c' * m" using assms(2) by (rule mult_right_mono [rotated])
  from approx_retarget [OF assms(1) approx_mag [OF assms(1)] this assms(3)]
  show ?thesis .
qed

lemma fl_scaled:
  assumes "standard_model u fp" "\<bar>x\<bar> \<le> m" "\<bar>k\<bar> \<le> q"
  shows "approx u 5 (m * q) (fmul fp x (rnd fp k)) (x * k)"
proof -
  have a: "approx u 0 m x x" using assms(2) by (rule approx_leaf)
  have b: "approx u 2 q (rnd fp k) k" using assms(1,3) by (rule fl_literal)
  show ?thesis by (rule fl_mul [OF assms(1) a b]) simp_all
qed

lemma fl_straight_end:
  assumes "standard_model u fp" "0 < w" "0 < h"
  shows "approx u 9 (extent cx cy w h)
           (fadd fp (fsub fp cy (fdiv fp h 2)) (fmul fp h (rnd fp 0.50))) (cy - h / 2 + h * 0.50)"
proof -
  have b: "approx u 5 (h * 0.50) (fmul fp h (rnd fp 0.50)) (h * 0.50)"
    by (rule fl_scaled [OF assms(1)]) (use assms in simp_all)
  have m: "\<bar>cy - h / 2 + h * 0.50\<bar> \<le> extent cx cy w h"
    using assms(2,3) by (simp add: extent_def)
  have c: "4 * extent cx cy w h + 5 * (h * 0.50) + 2 * extent cx cy w h \<le> 9 * extent cx cy w h"
    using assms(2,3) by (simp add: extent_def)
  show ?thesis by (rule fl_add [OF assms(1) fl_top_y [OF assms] b m c]) simp_all
qed

lemma fl_ctrl_y:
  assumes "standard_model u fp" "0 < w" "0 < h"
  shows "approx u 13 (extent cx cy w h)
           (fadd fp (fadd fp (fsub fp cy (fdiv fp h 2)) (fmul fp h (rnd fp 0.50)))
              (fmul fp h (rnd fp 0.35)))
           (cy - h / 2 + h * 0.50 + h * 0.35)"
proof -
  have b: "approx u 5 (h * 0.35) (fmul fp h (rnd fp 0.35)) (h * 0.35)"
    by (rule fl_scaled [OF assms(1)]) (use assms in simp_all)
  have m: "\<bar>cy - h / 2 + h * 0.50 + h * 0.35\<bar> \<le> extent cx cy w h"
    using assms(2,3) by (simp add: extent_def)
  have c: "9 * extent cx cy w h + 5 * (h * 0.35) + 2 * extent cx cy w h \<le> 13 * extent cx cy w h"
    using assms(2,3) by (simp add: extent_def)
  show ?thesis by (rule fl_add [OF assms(1) fl_straight_end [OF assms] b m c]) simp_all
qed

lemma fl_ctrl_x_right:
  assumes "standard_model u fp" "0 < w" "0 < h"
  shows "approx u 4 (extent cx cy w h) (fadd fp cx (fmul fp w (rnd fp 0.25))) (cx + w * 0.25)"
proof -
  have a: "approx u 0 (extent cx cy w h) cx cx"
    using assms(2,3) by (intro approx_leaf) (simp add: extent_def)
  have b: "approx u 5 (w * 0.25) (fmul fp w (rnd fp 0.25)) (w * 0.25)"
    by (rule fl_scaled [OF assms(1)]) (use assms in simp_all)
  have m: "\<bar>cx + w * 0.25\<bar> \<le> extent cx cy w h"
    using assms(2,3) by (simp add: extent_def)
  have c: "0 * extent cx cy w h + 5 * (w * 0.25) + 2 * extent cx cy w h \<le> 4 * extent cx cy w h"
    using assms(2,3) by (simp add: extent_def)
  show ?thesis by (rule fl_add [OF assms(1) a b m c]) simp_all
qed

lemma fl_ctrl_x_left:
  assumes "standard_model u fp" "0 < w" "0 < h"
  shows "approx u 4 (extent cx cy w h) (fsub fp cx (fmul fp w (rnd fp 0.25))) (cx - w * 0.25)"
proof -
  have a: "approx u 0 (extent cx cy w h) cx cx"
    using assms(2,3) by (intro approx_leaf) (simp add: extent_def)
  have b: "approx u 5 (w * 0.25) (fmul fp w (rnd fp 0.25)) (w * 0.25)"
    by (rule fl_scaled [OF assms(1)]) (use assms in simp_all)
  have m: "\<bar>cx - w * 0.25\<bar> \<le> extent cx cy w h"
    using assms(2,3) by (simp add: extent_def)
  have c: "0 * extent cx cy w h + 5 * (w * 0.25) + 2 * extent cx cy w h \<le> 4 * extent cx cy w h"
    using assms(2,3) by (simp add: extent_def)
  show ?thesis by (rule fl_sub [OF assms(1) a b m c]) simp_all
qed

lemma fl_quarter:
  assumes "standard_model u fp" "i \<le> 10"
  shows "approx u 8 2 (fmul fp (fdiv fp (fpi fp) 2) (fdiv fp (real i) (real (steps div 4))))
           ((pi / 2) * (real i / real (steps div 4)))"
proof -
  have a: "approx u 3 2 (fdiv fp (fpi fp) 2) (pi / 2)"
    by (rule fl_div [OF assms(1) fl_pi [OF assms(1)]]) simp_all
  have l: "approx u 0 10 (real i) (real i)"
    using assms(2) by (intro approx_leaf) simp
  have b: "approx u 2 1 (fdiv fp (real i) (real (steps div 4))) (real i / real (steps div 4))"
    by (rule fl_div [OF assms(1) l]) (simp_all add: steps_def)
  show ?thesis by (rule fl_mul [OF assms(1) a b]) simp_all
qed

lemma fl_angle_left:
  assumes "standard_model u fp" "i \<le> 10"
  shows "approx u 9 8
           (fadd fp (fpi fp) (fmul fp (fdiv fp (fpi fp) 2) (fdiv fp (real i) (real (steps div 4)))))
           (pi + (pi / 2) * (real i / real (steps div 4)))"
proof -
  have m: "\<bar>pi + (pi / 2) * (real i / real (steps div 4))\<bar> \<le> 8"
    using quarter_angle [OF assms(2)] pi_less_4 pi_gt_zero by linarith
  show ?thesis
    by (rule fl_add [OF assms(1) fl_pi [OF assms(1)] fl_quarter [OF assms] m]) simp_all
qed

lemma fl_angle_right:
  assumes "standard_model u fp" "i \<le> 10"
  shows "approx u 9 8
           (fadd fp (fdiv fp (fmul fp 3 (fpi fp)) 2)
              (fmul fp (fdiv fp (fpi fp) 2) (fdiv fp (real i) (real (steps div 4)))))
           (3 * pi / 2 + (pi / 2) * (real i / real (steps div 4)))"
proof -
  have l: "approx u 0 3 3 3" by (rule approx_leaf) simp
  have a: "approx u 4 12 (fmul fp 3 (fpi fp)) (3 * pi)"
    by (rule fl_mul [OF assms(1) l fl_pi [OF assms(1)]]) simp_all
  have b: "approx u 6 6 (fdiv fp (fmul fp 3 (fpi fp)) 2) (3 * pi / 2)"
    by (rule fl_div [OF assms(1) a]) simp_all
  have m: "\<bar>3 * pi / 2 + (pi / 2) * (real i / real (steps div 4))\<bar> \<le> 8"
    using quarter_angle [OF assms(2)] pi_less_4 pi_gt_zero by linarith
  show ?thesis
    by (rule fl_add [OF assms(1) b fl_quarter [OF assms] m]) simp_all
qed

lemma fl_corner_cos:
  assumes "standard_model u fp" "0 < w" "0 < h" "approx u 9 8 a a0"
  shows "approx u 7 (extent cx cy w h) (fmul fp (fmul fp w (rnd fp 0.08)) (fcos fp a))
           (w * 0.08 * cos a0)"
proof -
  have t: "approx u 73 1 (fcos fp a) (cos a0)"
    by (rule fl_cos [OF assms(1,4)]) simp
  have p: "approx u 81 (extent cx cy w h * 0.08) (fmul fp (fmul fp w (rnd fp 0.08)) (fcos fp a))
             (w * 0.08 * cos a0)"
    by (rule fl_mul [OF assms(1) fl_top_r [OF assms(1,2,3), where cx = cx and cy = cy] t]) simp_all
  have m: "\<bar>w * 0.08 * cos a0\<bar> \<le> extent cx cy w h"
    using approx_mag [OF p] assms(2,3) by (simp add: extent_def)
  have c: "81 * (extent cx cy w h * 0.08) \<le> 7 * extent cx cy w h"
    using assms(2,3) by (simp add: extent_def)
  show ?thesis by (rule approx_retarget [OF p m c sm_u(1) [OF assms(1)]])
qed

lemma fl_corner_sin:
  assumes "standard_model u fp" "0 < w" "0 < h" "approx u 9 8 a a0"
  shows "approx u 7 (extent cx cy w h) (fmul fp (fmul fp w (rnd fp 0.08)) (fsin fp a))
           (w * 0.08 * sin a0)"
proof -
  have t: "approx u 73 1 (fsin fp a) (sin a0)"
    by (rule fl_sin [OF assms(1,4)]) simp
  have p: "approx u 81 (extent cx cy w h * 0.08) (fmul fp (fmul fp w (rnd fp 0.08)) (fsin fp a))
             (w * 0.08 * sin a0)"
    by (rule fl_mul [OF assms(1) fl_top_r [OF assms(1,2,3), where cx = cx and cy = cy] t]) simp_all
  have m: "\<bar>w * 0.08 * sin a0\<bar> \<le> extent cx cy w h"
    using approx_mag [OF p] assms(2,3) by (simp add: extent_def)
  have c: "81 * (extent cx cy w h * 0.08) \<le> 7 * extent cx cy w h"
    using assms(2,3) by (simp add: extent_def)
  show ?thesis by (rule approx_retarget [OF p m c sm_u(1) [OF assms(1)]])
qed


lemma fl_corner_base_left:
  assumes "standard_model u fp" "0 < w" "0 < h"
  shows "approx u 7 (extent cx cy w h)
           (fadd fp (fsub fp cx (fdiv fp w 2)) (fmul fp w (rnd fp 0.08))) (cx - w / 2 + w * 0.08)"
proof -
  have m: "\<bar>cx - w / 2 + w * 0.08\<bar> \<le> extent cx cy w h"
    using assms(2,3) by (simp add: extent_def)
  have c: "4 * extent cx cy w h + 5 * (extent cx cy w h * 0.08) + 2 * extent cx cy w h
             \<le> 7 * extent cx cy w h"
    using assms(2,3) by (simp add: extent_def)
  show ?thesis
    by (rule fl_add [OF assms(1) fl_left_x [OF assms] fl_top_r [OF assms] m c]) simp_all
qed

lemma fl_corner_base_right:
  assumes "standard_model u fp" "0 < w" "0 < h"
  shows "approx u 7 (extent cx cy w h)
           (fsub fp (fadd fp cx (fdiv fp w 2)) (fmul fp w (rnd fp 0.08))) (cx + w / 2 - w * 0.08)"
proof -
  have m: "\<bar>cx + w / 2 - w * 0.08\<bar> \<le> extent cx cy w h"
    using assms(2,3) by (simp add: extent_def)
  have c: "4 * extent cx cy w h + 5 * (extent cx cy w h * 0.08) + 2 * extent cx cy w h
             \<le> 7 * extent cx cy w h"
    using assms(2,3) by (simp add: extent_def)
  show ?thesis
    by (rule fl_sub [OF assms(1) fl_right_x [OF assms] fl_top_r [OF assms] m c]) simp_all
qed

lemma fl_corner_base_y:
  assumes "standard_model u fp" "0 < w" "0 < h"
  shows "approx u 7 (extent cx cy w h)
           (fadd fp (fsub fp cy (fdiv fp h 2)) (fmul fp w (rnd fp 0.08))) (cy - h / 2 + w * 0.08)"
proof -
  have m: "\<bar>cy - h / 2 + w * 0.08\<bar> \<le> extent cx cy w h"
    using assms(2,3) by (simp add: extent_def)
  have c: "4 * extent cx cy w h + 5 * (extent cx cy w h * 0.08) + 2 * extent cx cy w h
             \<le> 7 * extent cx cy w h"
    using assms(2,3) by (simp add: extent_def)
  show ?thesis
    by (rule fl_add [OF assms(1) fl_top_y [OF assms] fl_top_r [OF assms] m c]) simp_all
qed

lemma fl_corner_sum:
  assumes "standard_model u fp" "approx u 7 m a a0" "approx u 7 m b b0"
  shows "approx u 9 (2 * m) (fadd fp a b) (a0 + b0)"
proof -
  have m: "\<bar>a0 + b0\<bar> \<le> 2 * m"
    using approx_mag [OF assms(2)] approx_mag [OF assms(3)] by linarith
  show ?thesis by (rule fl_add [OF assms(1,2,3) m]) simp_all
qed

lemma top_left_point_fl_near:
  assumes "standard_model u fp" "0 < w" "0 < h" "i \<le> 10"
  shows "approx u 9 (2 * extent cx cy w h)
           (fst (top_left_point_fl fp cx cy w h i)) (fst (top_left_point cx cy w h i))"
    and "approx u 9 (2 * extent cx cy w h)
           (snd (top_left_point_fl fp cx cy w h i)) (snd (top_left_point cx cy w h i))"
proof -
  note a = fl_angle_left [OF assms(1,4)]
  show "approx u 9 (2 * extent cx cy w h)
           (fst (top_left_point_fl fp cx cy w h i)) (fst (top_left_point cx cy w h i))"
    unfolding top_left_point_fl_def top_left_point_def Let_def fst_conv
    by (rule fl_corner_sum [OF assms(1) fl_corner_base_left [OF assms(1,2,3)]
          fl_corner_cos [OF assms(1,2,3) a]])
  show "approx u 9 (2 * extent cx cy w h)
           (snd (top_left_point_fl fp cx cy w h i)) (snd (top_left_point cx cy w h i))"
    unfolding top_left_point_fl_def top_left_point_def Let_def snd_conv
    by (rule fl_corner_sum [OF assms(1) fl_corner_base_y [OF assms(1,2,3)]
          fl_corner_sin [OF assms(1,2,3) a]])
qed

lemma top_right_point_fl_near:
  assumes "standard_model u fp" "0 < w" "0 < h" "i \<le> 10"
  shows "approx u 9 (2 * extent cx cy w h)
           (fst (top_right_point_fl fp cx cy w h i)) (fst (top_right_point cx cy w h i))"
    and "approx u 9 (2 * extent cx cy w h)
           (snd (top_right_point_fl fp cx cy w h i)) (snd (top_right_point cx cy w h i))"
proof -
  note a = fl_angle_right [OF assms(1,4)]
  show "approx u 9 (2 * extent cx cy w h)
           (fst (top_right_point_fl fp cx cy w h i)) (fst (top_right_point cx cy w h i))"
    unfolding top_right_point_fl_def top_right_point_def Let_def fst_conv
    by (rule fl_corner_sum [OF assms(1) fl_corner_base_right [OF assms(1,2,3)]
          fl_corner_cos [OF assms(1,2,3) a]])
  show "approx u 9 (2 * extent cx cy w h)
           (snd (top_right_point_fl fp cx cy w h i)) (snd (top_right_point cx cy w h i))"
    unfolding top_right_point_fl_def top_right_point_def Let_def snd_conv
    by (rule fl_corner_sum [OF assms(1) fl_corner_base_y [OF assms(1,2,3)]
          fl_corner_sin [OF assms(1,2,3) a]])
qed

lemma fl_param:
  assumes "standard_model u fp" "i \<le> 40"
  shows "approx u 2 1 (fdiv fp (real i) (real steps)) (real i / real steps)"
proof -
  have l: "approx u 0 40 (real i) (real i)"
    using assms(2) by (intro approx_leaf) simp
  show ?thesis by (rule fl_div [OF assms(1) l]) (simp_all add: steps_def)
qed

lemma fl_bezier:
  assumes sm: "standard_model u fp"
    and a: "approx u 13 m a a0" and b: "approx u 13 m b b0" and c: "approx u 13 m c c0"
    and t: "approx u 2 1 t t0" and t0: "0 \<le> t0" "t0 \<le> 1"
  shows "approx u 31 (4 * m) (quad_bezier_fl fp a b c t) (quad_bezier a0 b0 c0 t0)"
proof -
  have m0: "0 \<le> m" using approx_mag [OF a] by linarith
  have l1: "approx u 0 1 1 1" by (rule approx_leaf) simp
  have l2: "approx u 0 2 2 2" by (rule approx_leaf) simp
  have s: "approx u 4 1 (fsub fp 1 t) (1 - t0)"
    by (rule fl_sub [OF sm l1 t]) (use t0 in simp_all)
  have s2: "approx u 11 1 (fsqr fp (fsub fp 1 t)) ((1 - t0)\<^sup>2)"
    by (rule fl_sqr [OF sm s]) simp_all
  have x1: "approx u 27 m (fmul fp (fsqr fp (fsub fp 1 t)) a) ((1 - t0)\<^sup>2 * a0)"
    by (rule fl_mul [OF sm s2 a]) simp_all
  have d: "approx u 7 2 (fmul fp 2 (fsub fp 1 t)) (2 * (1 - t0))"
    by (rule fl_mul [OF sm l2 s]) simp_all
  have dt: "approx u 12 2 (fmul fp (fmul fp 2 (fsub fp 1 t)) t) (2 * (1 - t0) * t0)"
    by (rule fl_mul [OF sm d t]) simp_all
  have x2: "approx u 28 (2 * m) (fmul fp (fmul fp (fmul fp 2 (fsub fp 1 t)) t) b)
              (2 * (1 - t0) * t0 * b0)"
    by (rule fl_mul [OF sm dt b]) simp_all
  have t2: "approx u 7 1 (fsqr fp t) (t0\<^sup>2)"
    by (rule fl_sqr [OF sm t]) simp_all
  have x3: "approx u 23 m (fmul fp (fsqr fp t) c) (t0\<^sup>2 * c0)"
    by (rule fl_mul [OF sm t2 c]) simp_all
  have g1: "\<bar>(1 - t0)\<^sup>2 * a0 + 2 * (1 - t0) * t0 * b0\<bar> \<le> 3 * m"
    using approx_mag [OF x1] approx_mag [OF x2] by linarith
  have c1: "27 * m + 28 * (2 * m) + 2 * (3 * m) \<le> 30 * (3 * m)" using m0 by simp
  have y: "approx u 30 (3 * m)
             (fadd fp (fmul fp (fsqr fp (fsub fp 1 t)) a)
                (fmul fp (fmul fp (fmul fp 2 (fsub fp 1 t)) t) b))
             ((1 - t0)\<^sup>2 * a0 + 2 * (1 - t0) * t0 * b0)"
    by (rule fl_add [OF sm x1 x2 g1 c1]) simp_all
  have g2: "\<bar>(1 - t0)\<^sup>2 * a0 + 2 * (1 - t0) * t0 * b0 + t0\<^sup>2 * c0\<bar> \<le> 4 * m"
    using g1 approx_mag [OF x3] by linarith
  have c2: "30 * (3 * m) + 23 * m + 2 * (4 * m) \<le> 31 * (4 * m)" using m0 by simp
  show ?thesis
    unfolding quad_bezier_fl_def quad_bezier_def
    by (rule fl_add [OF sm y x3 g2 c2]) simp_all
qed

lemma right_curve_point_fl_near:
  assumes "standard_model u fp" "0 < w" "0 < h" "i \<le> 40"
  shows "approx u 31 (4 * extent cx cy w h)
           (fst (right_curve_point_fl fp cx cy w h i)) (fst (right_curve_point cx cy w h i))"
    and "approx u 31 (4 * extent cx cy w h)
           (snd (right_curve_point_fl fp cx cy w h i)) (snd (right_curve_point cx cy w h i))"
proof -
  note sm = assms(1) and g = assms(1,2,3)
  note u = sm_u(1) [OF sm]
  note t = fl_param [OF assms(1,4)]
  have t0: "0 \<le> real i / real steps" "real i / real steps \<le> 1"
    using assms(4) by (simp_all add: steps_def)
  have l: "approx u 13 (extent cx cy w h) cx cx"
    using assms(2,3) by (intro approx_weaken [OF approx_leaf _ u]) (simp_all add: extent_def)
  have p0x: "approx u 13 (extent cx cy w h) (fadd fp cx (fdiv fp w 2)) (cx + w / 2)"
    by (rule approx_weaken [OF fl_right_x [OF g] _ u]) simp
  have p1x: "approx u 13 (extent cx cy w h) (fadd fp cx (fmul fp w (rnd fp 0.25))) (cx + w * 0.25)"
    by (rule approx_weaken [OF fl_ctrl_x_right [OF g] _ u]) simp
  have p0y: "approx u 13 (extent cx cy w h)
               (fadd fp (fsub fp cy (fdiv fp h 2)) (fmul fp h (rnd fp 0.50))) (cy - h / 2 + h * 0.50)"
    by (rule approx_weaken [OF fl_straight_end [OF g] _ u]) simp
  have p2y: "approx u 13 (extent cx cy w h) (fadd fp cy (fdiv fp h 2)) (cy + h / 2)"
    by (rule approx_weaken [OF fl_bot_y [OF g] _ u]) simp
  show "approx u 31 (4 * extent cx cy w h)
           (fst (right_curve_point_fl fp cx cy w h i)) (fst (right_curve_point cx cy w h i))"
    unfolding right_curve_point_fl_def right_curve_point_def Let_def fst_conv snd_conv
    by (rule fl_bezier [OF sm p0x p1x l t t0])
  show "approx u 31 (4 * extent cx cy w h)
           (snd (right_curve_point_fl fp cx cy w h i)) (snd (right_curve_point cx cy w h i))"
    unfolding right_curve_point_fl_def right_curve_point_def Let_def fst_conv snd_conv
    by (rule fl_bezier [OF sm p0y fl_ctrl_y [OF g] p2y t t0])
qed

lemma left_curve_point_fl_near:
  assumes "standard_model u fp" "0 < w" "0 < h" "i \<le> 40"
  shows "approx u 31 (4 * extent cx cy w h)
           (fst (left_curve_point_fl fp cx cy w h i)) (fst (left_curve_point cx cy w h i))"
    and "approx u 31 (4 * extent cx cy w h)
           (snd (left_curve_point_fl fp cx cy w h i)) (snd (left_curve_point cx cy w h i))"
proof -
  note sm = assms(1) and g = assms(1,2,3)
  note u = sm_u(1) [OF sm]
  note t = fl_param [OF assms(1,4)]
  have t0: "0 \<le> real i / real steps" "real i / real steps \<le> 1"
    using assms(4) by (simp_all add: steps_def)
  have l: "approx u 13 (extent cx cy w h) cx cx"
    using assms(2,3) by (intro approx_weaken [OF approx_leaf _ u]) (simp_all add: extent_def)
  have p2x: "approx u 13 (extent cx cy w h) (fsub fp cx (fdiv fp w 2)) (cx - w / 2)"
    by (rule approx_weaken [OF fl_left_x [OF g] _ u]) simp
  have p1x: "approx u 13 (extent cx cy w h) (fsub fp cx (fmul fp w (rnd fp 0.25))) (cx - w * 0.25)"
    by (rule approx_weaken [OF fl_ctrl_x_left [OF g] _ u]) simp
  have p2y: "approx u 13 (extent cx cy w h)
               (fadd fp (fsub fp cy (fdiv fp h 2)) (fmul fp h (rnd fp 0.50))) (cy - h / 2 + h * 0.50)"
    by (rule approx_weaken [OF fl_straight_end [OF g] _ u]) simp
  have p0y: "approx u 13 (extent cx cy w h) (fadd fp cy (fdiv fp h 2)) (cy + h / 2)"
    by (rule approx_weaken [OF fl_bot_y [OF g] _ u]) simp
  show "approx u 31 (4 * extent cx cy w h)
           (fst (left_curve_point_fl fp cx cy w h i)) (fst (left_curve_point cx cy w h i))"
    unfolding left_curve_point_fl_def left_curve_point_def Let_def fst_conv snd_conv
    by (rule fl_bezier [OF sm l p1x p2x t t0])
  show "approx u 31 (4 * extent cx cy w h)
           (snd (left_curve_point_fl fp cx cy w h i)) (snd (left_curve_point cx cy w h i))"
    unfolding left_curve_point_fl_def left_curve_point_def Let_def fst_conv snd_conv
    by (rule fl_bezier [OF sm p0y fl_ctrl_y [OF g] p2y t t0])
qed


lemma fl_right_side_end:
  assumes "standard_model u fp" "0 < w" "0 < h"
  shows "approx u 4 (extent cx cy w h) (fst (right_side_end_fl fp cx cy w h)) (fst (right_side_end cx cy w h))"
    and "approx u 9 (extent cx cy w h) (snd (right_side_end_fl fp cx cy w h)) (snd (right_side_end cx cy w h))"
  unfolding right_side_end_fl_def right_side_end_def fst_conv snd_conv
  by (rule fl_right_x [OF assms], rule fl_straight_end [OF assms])

lemma fl_left_side_end:
  assumes "standard_model u fp" "0 < w" "0 < h"
  shows "approx u 4 (extent cx cy w h) (fst (left_side_end_fl fp cx cy w h)) (fst (left_side_end cx cy w h))"
    and "approx u 7 (extent cx cy w h) (snd (left_side_end_fl fp cx cy w h)) (snd (left_side_end cx cy w h))"
  unfolding left_side_end_fl_def left_side_end_def fst_conv snd_conv
  by (rule fl_left_x [OF assms], rule fl_corner_base_y [OF assms])

lemma make_shield_path_fl_pieces:
  "make_shield_path_fl fp cx cy w h =
     map (top_left_point_fl fp cx cy w h) [0 ..< 11] @
     map (top_right_point_fl fp cx cy w h) [0 ..< 11] @ [right_side_end_fl fp cx cy w h] @
     map (right_curve_point_fl fp cx cy w h) [1 ..< 41] @
     map (left_curve_point_fl fp cx cy w h) [1 ..< 41] @ [left_side_end_fl fp cx cy w h]"
  by (simp add: make_shield_path_fl_def Let_def append_each_map steps_def
      right_side_end_fl_def left_side_end_fl_def)

lemma approx_within:
  assumes "approx u c m x x0" "c * m \<le> 128 * e" "0 \<le> u"
  shows "\<bar>x - x0\<bar> \<le> 128 * u * e"
proof -
  have "\<bar>x - x0\<bar> \<le> u * (c * m)" using approx_err [OF assms(1)] by (simp add: mult.commute mult.left_commute)
  also have "\<dots> \<le> u * (128 * e)" using assms(2,3) by (rule mult_left_mono)
  finally show ?thesis by simp
qed

lemma near_in_bbox:
  assumes "in_bbox cx cy w h p" "\<bar>fst q - fst p\<bar> \<le> d" "\<bar>snd q - snd p\<bar> \<le> d"
  shows "in_bbox_within d cx cy w h q"
  using assms unfolding in_bbox_def in_bbox_within_def by linarith

lemma approx_in_bbox:
  assumes "in_bbox cx cy w h p" "0 \<le> u" "0 < w" "0 < h"
    "approx u c (k * extent cx cy w h) (fst q) (fst p)"
    "approx u c' (k' * extent cx cy w h) (snd q) (snd p)"
    "c * k \<le> 128" "c' * k' \<le> 128"
  shows "in_bbox_within (128 * u * extent cx cy w h) cx cy w h q"
proof -
  have e: "0 \<le> extent cx cy w h" using assms(3,4) by (simp add: extent_def)
  have "c * k * extent cx cy w h \<le> 128 * extent cx cy w h"
    using assms(7) e by (rule mult_right_mono)
  then have 1: "c * (k * extent cx cy w h) \<le> 128 * extent cx cy w h" by (simp add: mult.assoc)
  have "c' * k' * extent cx cy w h \<le> 128 * extent cx cy w h"
    using assms(8) e by (rule mult_right_mono)
  then have 2: "c' * (k' * extent cx cy w h) \<le> 128 * extent cx cy w h" by (simp add: mult.assoc)
  show ?thesis
    by (rule near_in_bbox [OF assms(1) approx_within [OF assms(5) 1 assms(2)]
          approx_within [OF assms(6) 2 assms(2)]])
qed

lemma approx_one: "approx u c m x x0 \<Longrightarrow> approx u c (1 * m) x x0"
  by simp

lemma standard_model_exact: "standard_model 0 exact_fpu"
  by (simp add: standard_model_def exact_fpu_def)

lemma standard_model_coarse: "standard_model (1 / 1000) coarse_fpu"
proof -
  have 1: "\<bar>x * (1 + 1 / 2000) - x\<bar> \<le> 1 / 1000 * \<bar>x\<bar>" for x :: real
  proof -
    have "x * (1 + 1 / 2000) - x = x / 2000" by (simp add: algebra_simps)
    then show ?thesis by simp
  qed
  have 2: "\<bar>x\<^sup>2 * (1 + 1 / 2000) - x\<^sup>2\<bar> \<le> 1 / 1000 * x\<^sup>2" for x :: real
    using 1 [of "x\<^sup>2"] by simp
  show ?thesis
    unfolding standard_model_def coarse_fpu_def fpu.simps using 1 2 by simp
qed

lemma make_shield_path_fl_exact:
  "make_shield_path_fl exact_fpu cx cy w h = make_shield_path cx cy w h"
proof -
  have "top_left_point_fl exact_fpu cx cy w h = top_left_point cx cy w h"
    by (rule ext) (simp add: top_left_point_fl_def top_left_point_def exact_fpu_def
        fadd_def fsub_def fmul_def fdiv_def Let_def)
  moreover have "top_right_point_fl exact_fpu cx cy w h = top_right_point cx cy w h"
    by (rule ext) (simp add: top_right_point_fl_def top_right_point_def exact_fpu_def
        fadd_def fsub_def fmul_def fdiv_def Let_def)
  moreover have "right_curve_point_fl exact_fpu cx cy w h = right_curve_point cx cy w h"
    by (rule ext) (simp add: right_curve_point_fl_def right_curve_point_def exact_fpu_def
        quad_bezier_fl_def quad_bezier_def fadd_def fsub_def fmul_def fdiv_def Let_def)
  moreover have "left_curve_point_fl exact_fpu cx cy w h = left_curve_point cx cy w h"
    by (rule ext) (simp add: left_curve_point_fl_def left_curve_point_def exact_fpu_def
        quad_bezier_fl_def quad_bezier_def fadd_def fsub_def fmul_def fdiv_def Let_def)
  ultimately show ?thesis
    by (simp add: make_shield_path_fl_def make_shield_path_def exact_fpu_def
        fadd_def fsub_def fmul_def fdiv_def Let_def)
qed

lemma shield_path_fl_flat_box:
  assumes "standard_model u fp"
  shows "\<not> list_all (in_bbox 0 0 100 1) (make_shield_path_fl fp 0 0 100 1)"
proof -
  have a: "approx u 7 (extent 0 0 100 1) (snd (left_side_end_fl fp 0 0 100 1))
             (snd (left_side_end 0 0 100 1))"
    by (rule fl_left_side_end(2) [OF assms]) simp_all
  have "7 * u * extent 0 0 100 1 \<le> 7 * (1 / 1000) * extent 0 0 100 1"
    using sm_u [OF assms] by (intro mult_mono) (simp_all add: extent_def)
  then have "\<bar>snd (left_side_end_fl fp 0 0 100 1) - snd (left_side_end 0 0 100 1)\<bar> \<le> 1"
    using approx_err [OF a] by (simp add: extent_def)
  then have "\<bar>snd (left_side_end_fl fp 0 0 100 1) - 15 / 2\<bar> \<le> 1"
    by (simp add: left_side_end_def)
  then have "\<not> snd (left_side_end_fl fp 0 0 100 1) \<le> 0 + 1 / 2" by linarith
  then have "\<not> in_bbox 0 0 100 1 (left_side_end_fl fp 0 0 100 1)"
    unfolding in_bbox_def by simp
  then show ?thesis by (simp add: make_shield_path_fl_pieces)
qed

lemma rounding_leaves_bbox:
  "fst (right_side_end_fl coarse_fpu 512 522 864 907.2) = 236172027 / 250000 \<and>
   \<not> in_bbox 512 522 864 907.2 (right_side_end_fl coarse_fpu 512 522 864 907.2) \<and>
   \<not> list_all (in_bbox 512 522 864 907.2) (make_shield_path_fl coarse_fpu 512 522 864 907.2)"
  by (simp add: make_shield_path_fl_pieces right_side_end_fl_def in_bbox_def coarse_fpu_def
      fadd_def fsub_def fmul_def fdiv_def)

subsection \<open>Bounding box\<close>

text \<open>
  Claim C9, as stated: for positive \<open>w\<close> and \<open>h\<close> every point of the path lies in the
  bounding box. It fails for a wide, flat box: with \<open>w = 100\<close> and \<open>h = 1\<close> around the
  origin, the corner radius is 8, and the last point \<open>(-50, 7.5)\<close> lies below the
  bottom edge \<open>y = 0.5\<close> of the box. Rounding does not repair this: by
  \<open>shield_path_fl_flat_box\<close> the last point is outside the box in every arithmetic of the
  standard model.
\<close>

theorem shield_path_bbox_counterexample:
  "(0::real) < 100 \<and> (0::real) < 1 \<and>
   last (make_shield_path 0 0 100 1) = (- 50, 15 / 2) \<and>
   \<not> in_bbox 0 0 100 1 (- 50, 15 / 2) \<and>
   \<not> list_all (in_bbox 0 0 100 1) (make_shield_path 0 0 100 1)"
  by (simp add: make_shield_path_pieces in_bbox_def left_side_end_def)

text \<open>
  Claim C9, amended: for positive \<open>w\<close> and \<open>h\<close> whose corner radius \<open>0.08 w\<close> does not
  exceed the height \<open>h\<close>, each of the 104 points that the path builder computes in
  floating-point arithmetic of unit roundoff \<open>u\<close> lies in the bounding box enlarged on
  each side by \<open>128 u (|cx| + |cy| + w + h)\<close>. The box itself is not guaranteed: rounding
  can put a point just outside it (\<open>rounding_leaves_bbox\<close>). Without rounding (\<open>u = 0\<close>,
  \<open>exact_fpu\<close>) the enlarged box is the box itself.
\<close>

theorem shield_path_in_bbox_rounded:
  assumes "standard_model u fp" and "0 < w" and "0 < h" and "w * 0.08 \<le> h"
  shows "length (make_shield_path_fl fp cx cy w h) = 104 \<and>
         list_all (in_bbox_within (128 * u * extent cx cy w h) cx cy w h)
           (make_shield_path_fl fp cx cy w h)"
proof -
  note g = assms(1,2,3)
  note u = sm_u(1) [OF assms(1)]
  have w: "0 \<le> w" and h: "0 \<le> h" using assms by simp_all
  let ?P = "in_bbox_within (128 * u * extent cx cy w h) cx cy w h"
  have 1: "?P (top_left_point_fl fp cx cy w h i)" if "i < 11" for i
  proof -
    have i: "i \<le> 10" using that by simp
    show ?thesis
      by (rule approx_in_bbox [OF top_left_point_in_bbox [OF w assms(4) i] u assms(2,3)
            top_left_point_fl_near [OF g i]]) simp_all
  qed
  have 2: "?P (top_right_point_fl fp cx cy w h i)" if "i < 11" for i
  proof -
    have i: "i \<le> 10" using that by simp
    show ?thesis
      by (rule approx_in_bbox [OF top_right_point_in_bbox [OF w assms(4) i] u assms(2,3)
            top_right_point_fl_near [OF g i]]) simp_all
  qed
  have "in_bbox cx cy w h (right_side_end cx cy w h)"
    using w h by (simp add: in_bbox_def right_side_end_def)
  then have 3: "?P (right_side_end_fl fp cx cy w h)"
    by (rule approx_in_bbox [OF _ u assms(2,3) approx_one [OF fl_right_side_end(1) [OF g]]
          approx_one [OF fl_right_side_end(2) [OF g]]]) simp_all
  have 4: "?P (right_curve_point_fl fp cx cy w h i)" if "i < 41" for i
  proof -
    have i: "i \<le> 40" using that by simp
    show ?thesis
      by (rule approx_in_bbox [OF right_curve_point_in_bbox [OF w h i] u assms(2,3)
            right_curve_point_fl_near [OF g i]]) simp_all
  qed
  have 5: "?P (left_curve_point_fl fp cx cy w h i)" if "i < 41" for i
  proof -
    have i: "i \<le> 40" using that by simp
    show ?thesis
      by (rule approx_in_bbox [OF left_curve_point_in_bbox [OF w h i] u assms(2,3)
            left_curve_point_fl_near [OF g i]]) simp_all
  qed
  have "in_bbox cx cy w h (left_side_end cx cy w h)"
    using w h assms(4) by (simp add: in_bbox_def left_side_end_def)
  then have 6: "?P (left_side_end_fl fp cx cy w h)"
    by (rule approx_in_bbox [OF _ u assms(2,3) approx_one [OF fl_left_side_end(1) [OF g]]
          approx_one [OF fl_left_side_end(2) [OF g]]]) simp_all
  have n: "length (make_shield_path_fl fp cx cy w h) = 104"
    by (simp add: make_shield_path_fl_pieces)
  have "list_all ?P (make_shield_path_fl fp cx cy w h)"
    unfolding make_shield_path_fl_pieces list_all_append
    using list_all_map_upt [of 11 ?P "top_left_point_fl fp cx cy w h" 0, OF 1]
      list_all_map_upt [of 11 ?P "top_right_point_fl fp cx cy w h" 0, OF 2]
      list_all_map_upt [of 41 ?P "right_curve_point_fl fp cx cy w h" 1, OF 4]
      list_all_map_upt [of 41 ?P "left_curve_point_fl fp cx cy w h" 1, OF 5] 3 6
    by simp
  with n show ?thesis by simp
qed

theorem shield_path_in_bbox_rounded_witness:
  "standard_model (1 / 1000) coarse_fpu \<and> (0::real) < 864 \<and> (0::real) < 907.2 \<and>
   (864::real) * 0.08 \<le> 907.2 \<and>
   length (make_shield_path_fl coarse_fpu 512 522 864 907.2) = 104 \<and>
   list_all (in_bbox_within (128 * (1 / 1000) * extent 512 522 864 907.2) 512 522 864 907.2)
     (make_shield_path_fl coarse_fpu 512 522 864 907.2)"
proof -
  have w: "(0::real) < 864" and h: "(0::real) < 907.2" by simp_all
  have r: "(864::real) * 0.08 \<le> 907.2" by simp
  show ?thesis
    using shield_path_in_bbox_rounded [OF standard_model_coarse w h r, of 512 522]
      standard_model_coarse w h r by simp
qed

section \<open>Properties of the compositor\<close>

subsection \<open>The microphone glyph\<close>

lemma cap_ratio: "cap_h s = 1.7 * cap_w s"
  by (simp add: cap_h_def cap_w_def)

lemma arc_ratio: "arc_w s = 1.7 * cap_w s"
  by (simp add: arc_w_def)

lemma grille_span: "grille_bot cy s - grille_top cy s = 68 * s"
  by (simp add: grille_bot_def grille_top_def cap_h_def)

lemma grille_line_even:
  "grille_line cx cy s i =
     (Line (cx - cap_w s / 2 + indent s,
            grille_top cy s + real i * ((grille_bot cy s - grille_top cy s) / 4))
           (cx + cap_w s / 2 - indent s,
            grille_top cy s + real i * ((grille_bot cy s - grille_top cy s) / 4))
           (line_width s),
      line_color)"
  by (simp add: grille_line_def Let_def num_lines_def)

lemma grille_lines_five:
  "map (grille_line cx cy s) [0 ..< num_lines] =
     [grille_line cx cy s 0, grille_line cx cy s 1, grille_line cx cy s 2,
      grille_line cx cy s 3, grille_line cx cy s 4]"
  by (simp add: num_lines_def upt_rec eval_nat_numeral)

lemma grille_first: "fst (grille_line cx cy s 0) =
   Line (cx - cap_w s / 2 + indent s, grille_top cy s) (cx + cap_w s / 2 - indent s, grille_top cy s) (line_width s)"
  by (simp add: grille_line_even)

lemma grille_last: "fst (grille_line cx cy s 4) =
   Line (cx - cap_w s / 2 + indent s, grille_bot cy s) (cx + cap_w s / 2 - indent s, grille_bot cy s) (line_width s)"
  by (simp add: grille_line_even field_simps)

lemma proportionalI: "(\<And>s. f s = k * s) \<Longrightarrow> proportional f"
  unfolding proportional_def by blast

lemma proportional_lengths:
  "proportional cap_w" "proportional cap_h" "proportional cap_r" "proportional indent"
  "proportional arc_w" "proportional arc_h_val" "proportional stand_h" "proportional base_w"
  "proportional (\<lambda>s. grille_bot cy s - grille_top cy s)"
proof -
  show "proportional cap_w" by (rule proportionalI [of _ 100]) (simp add: cap_w_def)
  show "proportional cap_h" by (rule proportionalI [of _ 170]) (simp add: cap_h_def)
  show "proportional cap_r" by (rule proportionalI [of _ 50]) (simp add: cap_r_def cap_w_def)
  show "proportional indent" by (rule proportionalI [of _ 22]) (simp add: indent_def cap_w_def)
  show "proportional arc_w" by (rule proportionalI [of _ 170]) (simp add: arc_w_def cap_w_def)
  show "proportional arc_h_val"
    by (rule proportionalI [of _ "153 / 2"]) (simp add: arc_h_val_def cap_h_def)
  show "proportional stand_h" by (rule proportionalI [of _ 55]) (simp add: stand_h_def)
  show "proportional base_w" by (rule proportionalI [of _ 90]) (simp add: base_w_def)
  show "proportional (\<lambda>s. grille_bot cy s - grille_top cy s)"
    by (rule proportionalI [of _ 68]) (simp add: grille_span)
qed

lemma mic_scale_value: "mic_scale = 864 / 820"
  by (simp add: mic_scale_def shield_w_def SIZE_def PAD_def)

lemma floor_12: "\<lfloor>12 * (864 / 820 :: real)\<rfloor> = 12"
  by (simp add: floor_eq_iff)

lemma stand_w_values: "stand_w 1 = 12" "stand_w mic_scale = 12"
  unfolding stand_w_def mic_scale_value py_int_def by (simp_all only: floor_12) simp_all

lemma not_proportional:
  fixes f :: "real \<Rightarrow> real"
  assumes "f a = c" "f b = c" "a \<noteq> b" "c \<noteq> 0"
  shows "\<not> proportional f"
proof
  assume "proportional f"
  then obtain k where k: "\<And>s. f s = k * s" unfolding proportional_def by blast
  from k [of a] k [of b] assms(1,2) have "k * a = k * b" by simp
  moreover have "k \<noteq> 0" using k [of a] assms(1,4) by auto
  ultimately show False using assms(3) by simp
qed

lemma stand_w_not_proportional: "\<not> proportional (\<lambda>s. real_of_int (stand_w s))"
proof (rule not_proportional [of _ 1 12 mic_scale])
  show "real_of_int (stand_w 1) = 12" by (simp add: stand_w_values)
  show "real_of_int (stand_w mic_scale) = 12" by (simp add: stand_w_values)
  show "1 \<noteq> mic_scale" by (simp add: mic_scale_value)
  show "(12::real) \<noteq> 0" by simp
qed


text \<open>
  Claim C5, as stated: every dimension of the glyph is proportional to the scale factor.
  The stroke widths are not: the stand is \<open>max(4, int(12 s))\<close> pixels wide, which is 12
  both at the scale \<open>s = 1\<close> and at the scale \<open>864/820\<close> the script uses.
\<close>

theorem glyph_stroke_not_proportional:
  "stand_w 1 = 12 \<and> stand_w mic_scale = 12 \<and> mic_scale \<noteq> 1 \<and>
   \<not> proportional (\<lambda>s. real_of_int (stand_w s))"
  using stand_w_values stand_w_not_proportional by (simp add: mic_scale_value)

text \<open>
  Claim C5, amended. The capsule is \<open>1.7\<close> times as high as it is wide and the cradle arc
  is \<open>1.7\<close> times as wide as the capsule; the grille is five horizontal lines, the first
  at the grille top, the last at the grille bottom, a quarter of the distance apart, each
  inset by the same \<open>indent\<close> from the two capsule edges; the widths and heights of the
  capsule, the arc box, the stand and the base, the inset and the grille height are
  proportional to the scale factor \<open>shield_w / 820\<close>. The four stroke widths are whole
  numbers of pixels with a minimum, \<open>max(2, int(3 s))\<close> and \<open>max(4, int(12 s))\<close>.
\<close>

theorem glyph_proportions:
  "cap_h s = 1.7 * cap_w s \<and>
   arc_w s = 1.7 * cap_w s \<and>
   draw_microphone cx cy s =
     (RoundedRectangle (cx - cap_w s / 2, cap_top cy s, cx + cap_w s / 2, cap_top cy s + cap_h s)
        (py_int (cap_r s)), mic_color) #
     [grille_line cx cy s 0, grille_line cx cy s 1, grille_line cx cy s 2,
      grille_line cx cy s 3, grille_line cx cy s 4] @
     [(Arc (cx - arc_w s / 2, arc_y cy s, cx + arc_w s / 2, arc_y cy s + arc_h_val s * 2)
         0 180 (arc_thickness s), mic_color),
      (RoundedRectangle
         (cx - real_of_int (stand_w s) / 2, stand_top cy s,
          cx + real_of_int (stand_w s) / 2, stand_top cy s + stand_h s)
         (py_int (real_of_int (stand_w s) / 2)), mic_color),
      (RoundedRectangle
         (cx - base_w s / 2, base_top cy s, cx + base_w s / 2,
          base_top cy s + real_of_int (base_h s))
         (py_int (real_of_int (base_h s) / 2)), mic_color)] \<and>
   grille_line cx cy s i =
     (Line (cx - cap_w s / 2 + indent s,
            grille_top cy s + real i * ((grille_bot cy s - grille_top cy s) / 4))
           (cx + cap_w s / 2 - indent s,
            grille_top cy s + real i * ((grille_bot cy s - grille_top cy s) / 4))
           (line_width s),
      line_color) \<and>
   fst (grille_line cx cy s 0) =
     Line (cx - cap_w s / 2 + indent s, grille_top cy s)
          (cx + cap_w s / 2 - indent s, grille_top cy s) (line_width s) \<and>
   fst (grille_line cx cy s 4) =
     Line (cx - cap_w s / 2 + indent s, grille_bot cy s)
          (cx + cap_w s / 2 - indent s, grille_bot cy s) (line_width s) \<and>
   proportional cap_w \<and> proportional cap_h \<and> proportional cap_r \<and> proportional indent \<and>
   proportional arc_w \<and> proportional arc_h_val \<and> proportional stand_h \<and>
   proportional base_w \<and> proportional (\<lambda>s. grille_bot cy s - grille_top cy s) \<and>
   mic_scale = real_of_int shield_w / 820 \<and>
   line_width s = max 2 (py_int (3 * s)) \<and>
   arc_thickness s = max 4 (py_int (12 * s)) \<and>
   stand_w s = max 4 (py_int (12 * s)) \<and>
   base_h s = max 4 (py_int (12 * s))"
proof -
  have calls: "draw_microphone cx cy s =
     (RoundedRectangle (cx - cap_w s / 2, cap_top cy s, cx + cap_w s / 2, cap_top cy s + cap_h s)
        (py_int (cap_r s)), mic_color) #
     [grille_line cx cy s 0, grille_line cx cy s 1, grille_line cx cy s 2,
      grille_line cx cy s 3, grille_line cx cy s 4] @
     [(Arc (cx - arc_w s / 2, arc_y cy s, cx + arc_w s / 2, arc_y cy s + arc_h_val s * 2)
         0 180 (arc_thickness s), mic_color),
      (RoundedRectangle
         (cx - real_of_int (stand_w s) / 2, stand_top cy s,
          cx + real_of_int (stand_w s) / 2, stand_top cy s + stand_h s)
         (py_int (real_of_int (stand_w s) / 2)), mic_color),
      (RoundedRectangle
         (cx - base_w s / 2, base_top cy s, cx + base_w s / 2,
          base_top cy s + real_of_int (base_h s))
         (py_int (real_of_int (base_h s) / 2)), mic_color)]"
    unfolding draw_microphone_def grille_lines_five cap_bot_def by simp
  show ?thesis
    using cap_ratio [of s] arc_ratio [of s] calls grille_line_even [of cx cy s i]
      grille_first [of cx cy s] grille_last [of cx cy s] proportional_lengths(1-8)
      proportional_lengths(9) [of cy]
      mic_scale_def line_width_def [of s] arc_thickness_def [of s] stand_w_def [of s]
      base_h_def [of s]
    by blast
qed

subsection \<open>The gradient layer\<close>

lemma py_int_mono: "x \<le> y \<Longrightarrow> py_int x \<le> py_int y"
proof -
  assume xy: "x \<le> y"
  show ?thesis
  proof (cases "0 \<le> x")
    case True
    then show ?thesis using xy by (simp add: py_int_def floor_mono)
  next
    case neg: False
    show ?thesis
    proof (cases "0 \<le> y")
      case True
      have "\<lceil>x\<rceil> \<le> 0" using neg by (simp add: ceiling_le_zero)
      moreover have "0 \<le> \<lfloor>y\<rfloor>" using True by simp
      ultimately have "\<lceil>x\<rceil> \<le> \<lfloor>y\<rfloor>" by linarith
      then show ?thesis using neg True by (simp add: py_int_def)
    next
      case False
      then show ?thesis using neg xy by (simp add: py_int_def ceiling_mono)
    qed
  qed
qed

lemma shield_h_value: "shield_h = 907.2"
  by (simp add: shield_h_def shield_w_def SIZE_def PAD_def)

lemma highlight_rows: "nat (py_int (shield_h * 0.45)) = 408"
  by (simp add: shield_h_value py_int_def)

lemma darken_rows: "py_int (shield_h * 0.35) = 317"
  by (simp add: shield_h_value py_int_def)

lemma highlight_alpha_linear: "highlight_alpha i = py_int (45 - 45 * real i / 408.24)"
  by (simp add: highlight_alpha_def Let_def shield_h_value algebra_simps)

lemma darken_alpha_linear: "darken_alpha i = py_int (35 * real i / 317.52)"
  by (simp add: darken_alpha_def Let_def shield_h_value)

lemma highlight_alpha_first: "highlight_alpha 0 = 45"
  by (simp add: highlight_alpha_linear py_int_def)

lemma highlight_alpha_last: "highlight_alpha 407 = 0"
  by (simp add: highlight_alpha_linear py_int_def)

lemma darken_alpha_first: "darken_alpha 0 = 0"
  by (simp add: darken_alpha_linear py_int_def)

lemma darken_alpha_last: "darken_alpha 316 = 34"
  by (simp add: darken_alpha_linear py_int_def)

lemma highlight_alpha_antimono: "i \<le> j \<Longrightarrow> highlight_alpha j \<le> highlight_alpha i"
  unfolding highlight_alpha_linear by (rule py_int_mono) simp

lemma darken_alpha_mono: "i \<le> j \<Longrightarrow> darken_alpha i \<le> darken_alpha j"
  unfolding darken_alpha_linear by (rule py_int_mono) (simp add: divide_right_mono)

lemma highlight_lines_rows:
  "highlight_lines =
     map (\<lambda>i. (Line (0, shield_top + real i) (real_of_int SIZE, shield_top + real i) 0,
                RGBA 255 255 255 (highlight_alpha i))) [0 ..< 408]"
  unfolding highlight_lines_def highlight_rows highlight_line_def Let_def ..

lemma darken_lines_rows:
  "darken_lines =
     map (\<lambda>i. (Line (0, shield_bot - 317 + real i) (real_of_int SIZE, shield_bot - 317 + real i) 0,
                RGBA 0 0 0 (darken_alpha i))) [0 ..< 317]"
  unfolding darken_lines_def darken_rows darken_line_def Let_def by simp

lemma draw_all_dims: "dims (draw_all be im calls) = dims im"
  by (induction calls arbitrary: im) (simp_all add: draw_def)


lemma draw_mode: "mode (draw be im call) = mode im"
  by (simp add: draw_def)

lemma draw_all_mode: "mode (draw_all be im calls) = mode im"
  by (induction calls arbitrary: im) (simp_all add: draw_mode)

lemma draw_all_append: "draw_all be im (xs @ ys) = draw_all be (draw_all be im xs) ys"
  by (induction xs arbitrary: im) simp_all

lemma draw_all_none:
  "\<forall>c \<in> set calls. \<not> covers be (fst c) p \<Longrightarrow> pixels (draw_all be im calls) p = pixels im p"
  by (induction calls arbitrary: im) (simp_all add: draw_def)

lemma draw_all_once:
  assumes "\<forall>c \<in> set before. \<not> covers be (fst c) p" "covers be (fst c) p"
    "\<forall>c \<in> set after. \<not> covers be (fst c) p"
  shows "pixels (draw_all be im (before @ c # after)) p = ink (mode im) (snd c)"
proof -
  have "pixels (draw_all be im (before @ c # after)) p =
      pixels (draw be (draw_all be im before) c) p"
    using assms(3) by (simp add: draw_all_append draw_all_none)
  then show ?thesis using assms(2) by (simp add: draw_def draw_all_mode)
qed

lemma map_upt_split:
  assumes "i < n"
  shows "map f [0 ..< n] = map f [0 ..< i] @ f i # map f [Suc i ..< n]"
proof -
  have "[0 ..< n] = [0 ..< i] @ [i ..< n]"
    using upt_add_eq_append [of 0 i "n - i"] assms by simp
  moreover have "[i ..< n] = i # [Suc i ..< n]"
    using assms by (simp add: upt_conv_Cons)
  ultimately show ?thesis by simp
qed

lemma draw_all_row:
  assumes "i < n" "covers be (fst (f i)) p"
    "\<And>j. j < n \<Longrightarrow> j \<noteq> i \<Longrightarrow> \<not> covers be (fst (f j)) p"
  shows "pixels (draw_all be im (map f [0 ..< n])) p = ink (mode im) (snd (f i))"
  unfolding map_upt_split [OF assms(1)]
  by (rule draw_all_once) (use assms in auto)

lemma shield_top_value: "shield_top = 68.4"
  by (simp add: shield_top_def icon_cy_def shield_h_value SIZE_def)

lemma shield_bot_value: "shield_bot = 975.6"
  by (simp add: shield_bot_def icon_cy_def shield_h_value SIZE_def)

lemma line_rule_row:
  assumes "line_rule be pix" "0 \<le> y"
  shows "covers be (Line (0, y + real j) (real_of_int SIZE, y + real j) 0) (x, r) \<longleftrightarrow>
     r = pix y + int j \<and> 0 \<le> x \<and> x \<le> SIZE"
proof -
  have shift: "\<And>y n. 0 \<le> y \<Longrightarrow> pix (y + real n) = pix y + int n" and zero: "pix 0 = 0"
    using assms(1) by (simp_all add: line_rule_def)
  have "pix (real_of_int SIZE) = SIZE"
    using shift [of 0 1024] zero by (simp add: SIZE_def)
  moreover have "covers be (Line (0, y + real j) (real_of_int SIZE, y + real j) 0) (x, r) \<longleftrightarrow>
      r = pix (y + real j) \<and> pix 0 \<le> x \<and> x \<le> pix (real_of_int SIZE)"
    using assms(1) by (simp add: line_rule_def)
  ultimately show ?thesis using shift [OF assms(2), of j] zero by simp
qed

lemma highlight_pixel:
  assumes "line_rule be pix" "0 \<le> x" "x < SIZE" "i < 408"
  shows "pixels (draw_all be im highlight_lines) (x, pix shield_top + int i) =
     ink (mode im) (RGBA 255 255 255 (highlight_alpha i))"
proof -
  have top: "0 \<le> shield_top" by (simp add: shield_top_value)
  have "pixels (draw_all be im
      (map (\<lambda>i. (Line (0, shield_top + real i) (real_of_int SIZE, shield_top + real i) 0,
                RGBA 255 255 255 (highlight_alpha i))) [0 ..< 408])) (x, pix shield_top + int i) =
     ink (mode im) (snd (Line (0, shield_top + real i) (real_of_int SIZE, shield_top + real i) 0,
                RGBA 255 255 255 (highlight_alpha i)))"
    by (rule draw_all_row [OF assms(4)])
       (use assms(2,3) in \<open>simp_all add: line_rule_row [OF assms(1) top]\<close>)
  then show ?thesis by (simp add: highlight_lines_rows)
qed

lemma darken_pixel:
  assumes "line_rule be pix" "0 \<le> x" "x < SIZE" "i < 317"
  shows "pixels (draw_all be im darken_lines) (x, pix (shield_bot - 317) + int i) =
     ink (mode im) (RGBA 0 0 0 (darken_alpha i))"
proof -
  have bot: "0 \<le> shield_bot - 317" by (simp add: shield_bot_value)
  have "pixels (draw_all be im
      (map (\<lambda>i. (Line (0, shield_bot - 317 + real i) (real_of_int SIZE, shield_bot - 317 + real i) 0,
                RGBA 0 0 0 (darken_alpha i))) [0 ..< 317])) (x, pix (shield_bot - 317) + int i) =
     ink (mode im) (snd (Line (0, shield_bot - 317 + real i)
                           (real_of_int SIZE, shield_bot - 317 + real i) 0,
                RGBA 0 0 0 (darken_alpha i)))"
    by (rule draw_all_row [OF assms(4)])
       (use assms(2,3) in \<open>simp_all add: line_rule_row [OF assms(1) bot]\<close>)
  then show ?thesis by (simp add: darken_lines_rows)
qed

lemma highlight_none:
  assumes "line_rule be pix" "r < pix shield_top \<or> pix shield_top + 408 \<le> r"
  shows "\<forall>c \<in> set highlight_lines. \<not> covers be (fst c) (x, r)"
proof -
  have top: "0 \<le> shield_top" by (simp add: shield_top_value)
  show ?thesis
    unfolding highlight_lines_rows using assms(2)
    by (auto simp: line_rule_row [OF assms(1) top])
qed

lemma darken_none:
  assumes "line_rule be pix" "r < pix (shield_bot - 317) \<or> pix (shield_bot - 317) + 317 \<le> r"
  shows "\<forall>c \<in> set darken_lines. \<not> covers be (fst c) (x, r)"
proof -
  have bot: "0 \<le> shield_bot - 317" by (simp add: shield_bot_value)
  show ?thesis
    unfolding darken_lines_rows using assms(2)
    by (auto simp: line_rule_row [OF assms(1) bot])
qed

lemma bands_apart:
  assumes "line_rule be pix"
  shows "pix shield_top + 408 \<le> pix (shield_bot - 317)"
proof -
  have shift: "\<And>y n. 0 \<le> y \<Longrightarrow> pix (y + real n) = pix y + int n"
    and mono: "\<And>y y'. y \<le> y' \<Longrightarrow> pix y \<le> pix y'"
    using assms by (simp_all add: line_rule_def)
  have "pix shield_top + 408 = pix (shield_top + real (408::nat))"
    using shift [of shield_top 408] by (simp add: shield_top_value)
  also have "\<dots> \<le> pix (shield_bot - 317)"
    by (rule mono) (simp add: shield_top_value shield_bot_value)
  finally show ?thesis .
qed

lemma gradient_img_layers:
  "gradient_img be =
     draw_all be (draw_all be (image_new ''RGBA'' (SIZE, SIZE) (RGBA 0 0 0 0)) highlight_lines)
       darken_lines"
  by (simp add: gradient_img_def Let_def)

lemma gradient_highlight_pixel:
  assumes "line_rule be pix" "0 \<le> x" "x < SIZE" "i < 408"
  shows "pixels (gradient_img be) (x, pix shield_top + int i) = RGBA 255 255 255 (highlight_alpha i)"
proof -
  have "pix shield_top + int i < pix (shield_bot - 317)"
    using bands_apart [OF assms(1)] assms(4) by simp
  then have "\<forall>c \<in> set darken_lines. \<not> covers be (fst c) (x, pix shield_top + int i)"
    by (intro darken_none [OF assms(1)]) simp
  then show ?thesis
    unfolding gradient_img_layers
    by (simp add: draw_all_none highlight_pixel [OF assms] image_new_def ink_def)
qed

lemma gradient_darken_pixel:
  assumes "line_rule be pix" "0 \<le> x" "x < SIZE" "i < 317"
  shows "pixels (gradient_img be) (x, pix (shield_bot - 317) + int i) = RGBA 0 0 0 (darken_alpha i)"
  unfolding gradient_img_layers
  by (simp add: darken_pixel [OF assms] draw_all_mode image_new_def ink_def)

lemma gradient_clear_pixel:
  assumes "line_rule be pix"
    "r < pix shield_top \<or> (pix shield_top + 408 \<le> r \<and> r < pix (shield_bot - 317)) \<or>
     pix (shield_bot - 317) + 317 \<le> r"
  shows "pixels (gradient_img be) (x, r) = RGBA 0 0 0 0"
proof -
  have "r < pix shield_top \<or> pix shield_top + 408 \<le> r"
    using assms(2) bands_apart [OF assms(1)] by linarith
  then have h: "\<forall>c \<in> set highlight_lines. \<not> covers be (fst c) (x, r)"
    by (rule highlight_none [OF assms(1)])
  have "r < pix (shield_bot - 317) \<or> pix (shield_bot - 317) + 317 \<le> r"
    using assms(2) bands_apart [OF assms(1)] by linarith
  then have d: "\<forall>c \<in> set darken_lines. \<not> covers be (fst c) (x, r)"
    by (rule darken_none [OF assms(1)])
  show ?thesis
    unfolding gradient_img_layers by (simp add: draw_all_none h d image_new_def)
qed

lemma py_int_shift: "0 \<le> y \<Longrightarrow> py_int (y + real n) = py_int y + int n"
  by (simp add: py_int_def)

lemma line_rule_row_backend: "line_rule row_backend py_int"
  unfolding line_rule_def
  by (auto simp: row_backend_def py_int_mono py_int_shift) (simp_all add: py_int_def)

lemma row_values: "py_int shield_top = 68" "py_int (shield_bot - 317) = 658"
  by (simp_all add: shield_top_value shield_bot_value py_int_def)

text \<open>
  Claim C6, on the pixels of the gradient layer. The imaging library paints a horizontal
  line of width 0 on one pixel row, from the column of its first abscissa to the column
  of its last; \<open>line_rule\<close> states this for a rounding \<open>pix\<close> of coordinates to pixels
  (truncation, as in the library, or any rounding that is monotone and commutes with
  integer steps). Then the layer, a canvas of \<open>SIZE\<close> by \<open>SIZE\<close> pixels, holds on every
  column \<open>0 \<le> x < SIZE\<close>: white with alpha \<open>highlight_alpha i\<close> on the row \<open>i\<close> below the
  row of the top edge of the shield, for the 408 rows of the top portion, and black with
  alpha \<open>darken_alpha i\<close> on the row \<open>i\<close> of the bottom portion, 317 rows that end on the row
  of \<open>shield_bot - 1\<close>; the two bands do not overlap, and every other row is fully
  transparent. The highlight alpha is the integer part of the ramp \<open>45 - 45 i / 408.24\<close>,
  linear in the row index: 45, its maximum, on the top edge, never increasing downward,
  0 on the last row. The darkening alpha is the integer part of the ramp \<open>35 i / 317.52\<close>:
  0 on the first row, never decreasing, 34 on the last row.
\<close>

theorem gradient_layer_ramp:
  assumes "line_rule be pix"
  shows
    "dims (gradient_img be) = (SIZE, SIZE) \<and>
     (\<forall>x i. 0 \<le> x \<and> x < SIZE \<and> i < 408 \<longrightarrow>
        pixels (gradient_img be) (x, pix shield_top + int i) =
          RGBA 255 255 255 (highlight_alpha i)) \<and>
     (\<forall>x i. 0 \<le> x \<and> x < SIZE \<and> i < 317 \<longrightarrow>
        pixels (gradient_img be) (x, pix (shield_bot - 317) + int i) =
          RGBA 0 0 0 (darken_alpha i)) \<and>
     (\<forall>x r. r < pix shield_top \<or>
            (pix shield_top + 408 \<le> r \<and> r < pix (shield_bot - 317)) \<or>
            pix (shield_bot - 317) + 317 \<le> r \<longrightarrow>
        pixels (gradient_img be) (x, r) = RGBA 0 0 0 0) \<and>
     pix shield_top + 408 \<le> pix (shield_bot - 317) \<and>
     pix (shield_bot - 317) + 316 = pix (shield_bot - 1) \<and>
     highlight_lines =
       map (\<lambda>i. (Line (0, shield_top + real i) (real_of_int SIZE, shield_top + real i) 0,
                  RGBA 255 255 255 (highlight_alpha i))) [0 ..< 408] \<and>
     darken_lines =
       map (\<lambda>i. (Line (0, shield_bot - 317 + real i) (real_of_int SIZE, shield_bot - 317 + real i) 0,
                  RGBA 0 0 0 (darken_alpha i))) [0 ..< 317] \<and>
     (\<forall>i. highlight_alpha i = py_int (45 - 45 * real i / 408.24)) \<and>
     highlight_alpha 0 = 45 \<and>
     (\<forall>i j. i \<le> j \<longrightarrow> highlight_alpha j \<le> highlight_alpha i) \<and>
     highlight_alpha 407 = 0 \<and>
     (\<forall>i. darken_alpha i = py_int (35 * real i / 317.52)) \<and>
     darken_alpha 0 = 0 \<and>
     (\<forall>i j. i \<le> j \<longrightarrow> darken_alpha i \<le> darken_alpha j) \<and>
     darken_alpha 316 = 34"
proof -
  have size: "dims (gradient_img be) = (SIZE, SIZE)"
    by (simp add: gradient_img_def Let_def draw_all_dims image_new_def)
  have top: "\<forall>x i. 0 \<le> x \<and> x < SIZE \<and> i < 408 \<longrightarrow>
      pixels (gradient_img be) (x, pix shield_top + int i) = RGBA 255 255 255 (highlight_alpha i)"
    using gradient_highlight_pixel [OF assms] by blast
  have bottom: "\<forall>x i. 0 \<le> x \<and> x < SIZE \<and> i < 317 \<longrightarrow>
      pixels (gradient_img be) (x, pix (shield_bot - 317) + int i) = RGBA 0 0 0 (darken_alpha i)"
    using gradient_darken_pixel [OF assms] by blast
  have clear: "\<forall>x r. r < pix shield_top \<or>
            (pix shield_top + 408 \<le> r \<and> r < pix (shield_bot - 317)) \<or>
            pix (shield_bot - 317) + 317 \<le> r \<longrightarrow>
        pixels (gradient_img be) (x, r) = RGBA 0 0 0 0"
    using gradient_clear_pixel [OF assms] by blast
  have "\<And>y n. 0 \<le> y \<Longrightarrow> pix (y + real n) = pix y + int n"
    using assms by (simp add: line_rule_def)
  from this [of "shield_bot - 317" 316]
  have last_row: "pix (shield_bot - 317) + 316 = pix (shield_bot - 1)"
    by (simp add: shield_bot_value)
  show ?thesis
    by (intro conjI size top bottom clear bands_apart [OF assms] last_row
        highlight_lines_rows darken_lines_rows
        highlight_alpha_first highlight_alpha_last darken_alpha_first darken_alpha_last
        allI impI highlight_alpha_linear highlight_alpha_antimono
        darken_alpha_linear darken_alpha_mono)
qed

theorem gradient_layer_ramp_witness:
  "line_rule row_backend py_int \<and>
   pixels (gradient_img row_backend) (0, 68) = RGBA 255 255 255 45 \<and>
   pixels (gradient_img row_backend) (1023, 475) = RGBA 255 255 255 0 \<and>
   pixels (gradient_img row_backend) (0, 658) = RGBA 0 0 0 0 \<and>
   pixels (gradient_img row_backend) (1023, 974) = RGBA 0 0 0 34 \<and>
   pixels (gradient_img row_backend) (512, 600) = RGBA 0 0 0 0 \<and>
   highlight_alpha 407 \<le> highlight_alpha 0 \<and>
   darken_alpha 0 \<le> darken_alpha 316"
proof -
  note ramp = gradient_layer_ramp [OF line_rule_row_backend]
  from ramp have top: "\<forall>x i. 0 \<le> x \<and> x < SIZE \<and> i < 408 \<longrightarrow>
      pixels (gradient_img row_backend) (x, py_int shield_top + int i) =
        RGBA 255 255 255 (highlight_alpha i)"
    by (elim conjE) assumption
  from ramp have bottom: "\<forall>x i. 0 \<le> x \<and> x < SIZE \<and> i < 317 \<longrightarrow>
      pixels (gradient_img row_backend) (x, py_int (shield_bot - 317) + int i) =
        RGBA 0 0 0 (darken_alpha i)"
    by (elim conjE) assumption
  from ramp have clear: "\<forall>x r. r < py_int shield_top \<or>
            (py_int shield_top + 408 \<le> r \<and> r < py_int (shield_bot - 317)) \<or>
            py_int (shield_bot - 317) + 317 \<le> r \<longrightarrow>
        pixels (gradient_img row_backend) (x, r) = RGBA 0 0 0 0"
    by (elim conjE) assumption
  from ramp have e1: "highlight_alpha 0 = 45" by (elim conjE) assumption
  from ramp have e2: "highlight_alpha 407 = 0" by (elim conjE) assumption
  from ramp have e3: "darken_alpha 0 = 0" by (elim conjE) assumption
  from ramp have e4: "darken_alpha 316 = 34" by (elim conjE) assumption
  note ends = e1 e2 e3 e4
  have 1: "pixels (gradient_img row_backend) (0, 68) = RGBA 255 255 255 45"
    using top [rule_format, of 0 0] ends by (simp add: row_values SIZE_def)
  have 2: "pixels (gradient_img row_backend) (1023, 475) = RGBA 255 255 255 0"
    using top [rule_format, of 1023 407] ends by (simp add: row_values SIZE_def)
  have 3: "pixels (gradient_img row_backend) (0, 658) = RGBA 0 0 0 0"
    using bottom [rule_format, of 0 0] ends by (simp add: row_values SIZE_def)
  have 4: "pixels (gradient_img row_backend) (1023, 974) = RGBA 0 0 0 34"
    using bottom [rule_format, of 1023 316] ends by (simp add: row_values SIZE_def)
  have 5: "pixels (gradient_img row_backend) (512, 600) = RGBA 0 0 0 0"
    using clear [rule_format, of 600 512] by (simp add: row_values)
  show ?thesis
    using line_rule_row_backend 1 2 3 4 5 ends by simp
qed

subsection \<open>The mask\<close>





















section \<open>Properties of the exporter\<close>

lemma written_append: "written (es @ fs) = written es @ written fs"
  by (induction es rule: written.induct) simp_all

lemma saved_append: "saved (es @ fs) = saved es @ saved fs"
  by (induction es rule: saved.induct) simp_all

lemma export_each_Cons:
  "export_each be w src dir ((sz, scale) # rest) js tr =
     (if w (dir @ ''/'' @ icon_filename sz scale)
      then export_each be w src dir rest (js @ [manifest_entry sz scale])
             (tr @ [Saved (dir @ ''/'' @ icon_filename sz scale)
                      (PngFile (resize be src (int (sz * scale), int (sz * scale)))),
                    Printed (''  Created '' @ icon_filename sz scale @ '' ('' @
                             str_nat (sz * scale) @ ''x'' @ str_nat (sz * scale) @ ''px)'')])
      else (Inl (OSError (dir @ ''/'' @ icon_filename sz scale)), tr))"
  by (simp add: save_file_def print_line_def Let_def)

lemma export_each_outcome:
  "fst (export_each be w src dir ps js tr) =
     (case dropWhile w (map (\<lambda>(sz, scale). dir @ ''/'' @ icon_filename sz scale) ps) of
        [] \<Rightarrow> Inr (js @ map (\<lambda>(sz, scale). manifest_entry sz scale) ps)
      | p # rest \<Rightarrow> Inl (OSError p))"
proof (induction ps arbitrary: js tr)
  case Nil
  show ?case by simp
next
  case (Cons a ps)
  obtain sz scale where a: "a = (sz, scale)" by (cases a)
  show ?case unfolding a export_each_Cons by (simp add: Cons.IH cong: list.case_cong)
qed

lemma export_each_written:
  "written (snd (export_each be w src dir ps js tr)) =
     written tr @ takeWhile w (map (\<lambda>(sz, scale). dir @ ''/'' @ icon_filename sz scale) ps)"
proof (induction ps arbitrary: js tr)
  case Nil
  show ?case by simp
next
  case (Cons a ps)
  obtain sz scale where a: "a = (sz, scale)" by (cases a)
  show ?case unfolding a export_each_Cons by (simp add: Cons.IH written_append)
qed

lemma export_each_saved:
  "saved (snd (export_each be w src dir ps js tr)) =
     saved tr @
     map (\<lambda>(sz, scale). (dir @ ''/'' @ icon_filename sz scale,
                          PngFile (resize be src (int (sz * scale), int (sz * scale)))))
       (takeWhile (\<lambda>(sz, scale). w (dir @ ''/'' @ icon_filename sz scale)) ps)"
proof (induction ps arbitrary: js tr)
  case Nil
  show ?case by simp
next
  case (Cons a ps)
  obtain sz scale where a: "a = (sz, scale)" by (cases a)
  show ?case unfolding a export_each_Cons by (simp add: Cons.IH saved_append)
qed

lemma generate_sizes_run:
  "fst (generate_sizes be w src dir tr) = first_failure w (export_paths dir) \<and>
   written (snd (generate_sizes be w src dir tr)) = written tr @ takeWhile w (export_paths dir)"
proof -
  define P where "P = map (\<lambda>(sz, scale). dir @ ''/'' @ icon_filename sz scale) sizes"
  define m where "m = dir @ ''/Contents.json''"
  obtain r tr1 where run: "export_each be w src dir sizes [] tr = (r, tr1)"
    by (cases "export_each be w src dir sizes [] tr")
  have r: "r = (case dropWhile w P of
                  [] \<Rightarrow> Inr (map (\<lambda>(sz, scale). manifest_entry sz scale) sizes)
                | p # rest \<Rightarrow> Inl (OSError p))"
    using export_each_outcome [of be w src dir sizes "[]" tr]
    by (simp add: run P_def cong: list.case_cong)
  have tr1: "written tr1 = written tr @ takeWhile w P"
    using export_each_written [of be w src dir sizes "[]" tr] by (simp add: run P_def)
  have paths: "export_paths dir = P @ [m]"
    by (simp add: export_paths_def P_def m_def)
  show ?thesis
  proof (cases "\<forall>p \<in> set P. w p")
    case True
    then have d: "dropWhile w P = []" and t: "takeWhile w P = P" by simp_all
    have r': "r = Inr (map (\<lambda>(sz, scale). manifest_entry sz scale) sizes)"
      using r d by simp
    show ?thesis
    proof (cases "w m")
      case wm: True
      have "dropWhile w (P @ [m]) = []" "takeWhile w (P @ [m]) = P @ [m]"
        using True wm by simp_all
      then show ?thesis
        using wm tr1 t
        by (simp add: generate_sizes_def run r' paths first_failure_def save_file_def
            print_line_def Let_def written_append m_def [symmetric])
    next
      case wm: False
      have "dropWhile w (P @ [m]) = [m]" "takeWhile w (P @ [m]) = P"
        using True wm by simp_all
      then show ?thesis
        using wm tr1 t
        by (simp add: generate_sizes_def run r' paths first_failure_def save_file_def
            Let_def m_def [symmetric])
    qed
  next
    case False
    then obtain p rest where d: "dropWhile w P = p # rest"
      by (cases "dropWhile w P") (auto simp: dropWhile_eq_Nil_conv)
    have r': "r = Inl (OSError p)" using r d by simp
    have "dropWhile w (P @ [m]) = p # rest @ [m]" "takeWhile w (P @ [m]) = takeWhile w P"
      using False d by (auto simp: dropWhile_append takeWhile_append)
    then show ?thesis
      using tr1 by (simp add: generate_sizes_def run r' paths first_failure_def)
  qed
qed

lemma first_failure_Cons:
  "first_failure w (p # ps) = (if w p then first_failure w ps else Inl (OSError p))"
  by (simp add: first_failure_def)

lemma main_run:
  "fst (main be w sd tr) = first_failure w (main_paths sd) \<and>
   written (snd (main be w sd tr)) = written tr @ takeWhile w (main_paths sd)"
proof (cases "w (build_dir sd)")
  case b: True
  show ?thesis
  proof (cases "w (master_path sd)")
    case True
    define tr0 where "tr0 =
      print_line (CHR 0x0A # ''Generating icon sizes for '' @ appiconset sd @ '':'')
        (print_line (''Master icon: '' @ master_path sd)
           ((print_line ''Generating NoteTaker app icon...'' tr @ [MadeDirs (build_dir sd)]) @
            [Saved (master_path sd) (PngFile (create_icon be))]))"
    have w0: "written tr0 = written tr @ [build_dir sd, master_path sd]"
      by (simp add: tr0_def print_line_def written_append)
    obtain r tr1 where g: "generate_sizes be w (create_icon be) (appiconset sd) tr0 = (r, tr1)"
      by (cases "generate_sizes be w (create_icon be) (appiconset sd) tr0")
    have r: "r = first_failure w (export_paths (appiconset sd))"
      and tr1: "written tr1 = written tr0 @ takeWhile w (export_paths (appiconset sd))"
      using generate_sizes_run [of be w "create_icon be" "appiconset sd" tr0] by (simp_all add: g)
    have m: "main be w sd tr =
               (case generate_sizes be w (create_icon be) (appiconset sd) tr0 of
                  (Inl e, tr) \<Rightarrow> (Inl e, tr)
                | (Inr u, tr) \<Rightarrow>
                    (Inr (), print_line (CHR 0x0A # ''Done! App icon is ready.'') tr))"
      unfolding main_def Let_def makedirs_def save_file_def tr0_def
      by (simp only: b True if_True prod.case sum.case)
    have paths: "first_failure w (main_paths sd) = first_failure w (export_paths (appiconset sd))"
      "takeWhile w (main_paths sd) =
         [build_dir sd, master_path sd] @ takeWhile w (export_paths (appiconset sd))"
      using b True by (simp_all add: main_paths_def first_failure_Cons)
    show ?thesis
      unfolding m g paths
      by (cases r) (simp_all add: r [symmetric] tr1 w0 print_line_def written_append)
  next
    case False
    have m: "main be w sd tr =
               (Inl (OSError (master_path sd)),
                print_line ''Generating NoteTaker app icon...'' tr @ [MadeDirs (build_dir sd)])"
      unfolding main_def Let_def makedirs_def save_file_def
      by (simp only: b False if_True if_False prod.case sum.case)
    show ?thesis
      unfolding m using b False
      by (simp add: main_paths_def first_failure_Cons print_line_def written_append)
  qed
next
  case False
  have m: "main be w sd tr =
             (Inl (OSError (build_dir sd)), print_line ''Generating NoteTaker app icon...'' tr)"
    unfolding main_def Let_def makedirs_def
    by (simp only: False if_False prod.case sum.case)
  show ?thesis
    unfolding m using False
    by (simp add: main_paths_def first_failure_Cons print_line_def written_append)
qed

lemma first_failure_ok: "first_failure w ps = Inr () \<longleftrightarrow> (\<forall>p \<in> set ps. w p)"
proof (cases "dropWhile w ps")
  case Nil
  have "\<forall>p \<in> set ps. w p" using Nil by simp
  moreover have "first_failure w ps = Inr ()" unfolding first_failure_def Nil by simp
  ultimately show ?thesis by simp
next
  case (Cons p rest)
  then have "dropWhile w ps \<noteq> []" by simp
  then have "\<not> (\<forall>p \<in> set ps. w p)" by simp
  moreover have "first_failure w ps = Inl (OSError p)" unfolding first_failure_def Cons by simp
  ultimately show ?thesis by simp
qed

lemma generate_sizes_saved:
  assumes "\<forall>p \<in> set (export_paths dir). w p"
  shows "saved (snd (generate_sizes be w src dir tr)) =
     saved tr @
     map (\<lambda>(sz, scale). (dir @ ''/'' @ icon_filename sz scale,
                          PngFile (resize be src (int (sz * scale), int (sz * scale))))) sizes @
     [(dir @ ''/Contents.json'',
       JsonFile
         (JObject
            [(''images'', JArray (map (\<lambda>(sz, scale). manifest_entry sz scale) sizes)),
             (''info'', JObject [(''author'', JString ''xcode''), (''version'', JInt 1)])]) 2)]"
proof -
  define P where "P = map (\<lambda>(sz, scale). dir @ ''/'' @ icon_filename sz scale) sizes"
  have all: "\<forall>p \<in> set P. w p" and m: "w (dir @ ''/Contents.json'')"
    using assms by (simp_all add: export_paths_def P_def)
  obtain r tr1 where run: "export_each be w src dir sizes [] tr = (r, tr1)"
    by (cases "export_each be w src dir sizes [] tr")
  have d: "dropWhile w P = []" using all by simp
  have "r = (case dropWhile w P of
               [] \<Rightarrow> Inr (map (\<lambda>(sz, scale). manifest_entry sz scale) sizes)
             | p # rest \<Rightarrow> Inl (OSError p))"
    using export_each_outcome [of be w src dir sizes "[]" tr]
    by (simp add: run P_def cong: list.case_cong)
  then have r: "r = Inr (map (\<lambda>(sz, scale). manifest_entry sz scale) sizes)"
    unfolding d by simp
  have t: "takeWhile (\<lambda>(sz, scale). w (dir @ ''/'' @ icon_filename sz scale)) sizes = sizes"
    using all by (auto simp: P_def takeWhile_eq_all_conv)
  have tr1: "saved tr1 = saved tr @
     map (\<lambda>(sz, scale). (dir @ ''/'' @ icon_filename sz scale,
                          PngFile (resize be src (int (sz * scale), int (sz * scale))))) sizes"
    using export_each_saved [of be w src dir sizes "[]" tr] unfolding run t by simp
  show ?thesis
    using m tr1
    by (simp add: generate_sizes_def run r save_file_def print_line_def Let_def saved_append)
qed

lemma str_nat_one: "str_nat (Suc 0) = ''1''"
  by (subst str_nat.simps) (simp add: digit_char_def)

lemma str_nat_values:
  "str_nat 1 = ''1''" "str_nat 2 = ''2''" "str_nat 16 = ''16''" "str_nat 32 = ''32''"
  "str_nat 64 = ''64''" "str_nat 128 = ''128''" "str_nat 256 = ''256''" "str_nat 512 = ''512''"
  "str_nat 1024 = ''1024''"
  by (simp_all add: str_nat.simps digit_char_def str_nat_one)

lemma icon_filenames:
  "map (\<lambda>(sz, scale). icon_filename sz scale) sizes =
     [''icon_16x16.png'', ''icon_16x16@2x.png'', ''icon_32x32.png'', ''icon_32x32@2x.png'',
      ''icon_128x128.png'', ''icon_128x128@2x.png'', ''icon_256x256.png'',
      ''icon_256x256@2x.png'', ''icon_512x512.png'', ''icon_512x512@2x.png'']"
  by (simp add: sizes_def icon_filename_def str_nat_values str_nat_one)

lemma icon_filenames_distinct: "distinct (map (\<lambda>(sz, scale). icon_filename sz scale) sizes)"
  unfolding icon_filenames by simp

lemma export_paths_explicit:
  "export_paths dir =
     [dir @ ''/icon_16x16.png'', dir @ ''/icon_16x16@2x.png'', dir @ ''/icon_32x32.png'',
      dir @ ''/icon_32x32@2x.png'', dir @ ''/icon_128x128.png'', dir @ ''/icon_128x128@2x.png'',
      dir @ ''/icon_256x256.png'', dir @ ''/icon_256x256@2x.png'', dir @ ''/icon_512x512.png'',
      dir @ ''/icon_512x512@2x.png'', dir @ ''/Contents.json'']"
  by (simp add: export_paths_def sizes_def icon_filename_def str_nat_values str_nat_one)

lemma manifest_entries:
  "map (\<lambda>(sz, scale). manifest_entry sz scale) sizes =
     [JObject [(''filename'', JString ''icon_16x16.png''), (''idiom'', JString ''mac''),
               (''scale'', JString ''1x''), (''size'', JString ''16x16'')],
      JObject [(''filename'', JString ''icon_16x16@2x.png''), (''idiom'', JString ''mac''),
               (''scale'', JString ''2x''), (''size'', JString ''16x16'')],
      JObject [(''filename'', JString ''icon_32x32.png''), (''idiom'', JString ''mac''),
               (''scale'', JString ''1x''), (''size'', JString ''32x32'')],
      JObject [(''filename'', JString ''icon_32x32@2x.png''), (''idiom'', JString ''mac''),
               (''scale'', JString ''2x''), (''size'', JString ''32x32'')],
      JObject [(''filename'', JString ''icon_128x128.png''), (''idiom'', JString ''mac''),
               (''scale'', JString ''1x''), (''size'', JString ''128x128'')],
      JObject [(''filename'', JString ''icon_128x128@2x.png''), (''idiom'', JString ''mac''),
               (''scale'', JString ''2x''), (''size'', JString ''128x128'')],
      JObject [(''filename'', JString ''icon_256x256.png''), (''idiom'', JString ''mac''),
               (''scale'', JString ''1x''), (''size'', JString ''256x256'')],
      JObject [(''filename'', JString ''icon_256x256@2x.png''), (''idiom'', JString ''mac''),
               (''scale'', JString ''2x''), (''size'', JString ''256x256'')],
      JObject [(''filename'', JString ''icon_512x512.png''), (''idiom'', JString ''mac''),
               (''scale'', JString ''1x''), (''size'', JString ''512x512'')],
      JObject [(''filename'', JString ''icon_512x512@2x.png''), (''idiom'', JString ''mac''),
               (''scale'', JString ''2x''), (''size'', JString ''512x512'')]]"
  by (simp add: sizes_def manifest_entry_def icon_filename_def str_nat_values str_nat_one)

lemma icon_files:
  "map (\<lambda>(sz, scale). (dir @ ''/'' @ icon_filename sz scale,
                        PngFile (resize be src (int (sz * scale), int (sz * scale))))) sizes =
     [(dir @ ''/icon_16x16.png'', PngFile (resize be src (16, 16))),
      (dir @ ''/icon_16x16@2x.png'', PngFile (resize be src (32, 32))),
      (dir @ ''/icon_32x32.png'', PngFile (resize be src (32, 32))),
      (dir @ ''/icon_32x32@2x.png'', PngFile (resize be src (64, 64))),
      (dir @ ''/icon_128x128.png'', PngFile (resize be src (128, 128))),
      (dir @ ''/icon_128x128@2x.png'', PngFile (resize be src (256, 256))),
      (dir @ ''/icon_256x256.png'', PngFile (resize be src (256, 256))),
      (dir @ ''/icon_256x256@2x.png'', PngFile (resize be src (512, 512))),
      (dir @ ''/icon_512x512.png'', PngFile (resize be src (512, 512))),
      (dir @ ''/icon_512x512@2x.png'', PngFile (resize be src (1024, 1024)))]"
  by (simp add: sizes_def icon_filename_def str_nat_values str_nat_one)

text \<open>
  Claim C1. When every write succeeds, a run of the exporter from an empty history saves
  exactly eleven files, in this order: the ten icons, one for each pair of the fixed list,
  named \<open>icon_{size}x{size}\<close> with the suffix \<open>@2x\<close> exactly for scale 2 and resized to
  \<open>size * scale\<close> pixels, and then the manifest. The ten names are distinct. The manifest
  lists ten entries, one for each pair in the same order, each with its file name, the
  idiom \<open>mac\<close>, the scale \<open>1x\<close> or \<open>2x\<close> and the size \<open>{size}x{size}\<close>, followed by the
  info object with author \<open>xcode\<close> and version 1.
\<close>

theorem exporter_output:
  assumes "list_all w (export_paths dir)"
  shows
    "fst (generate_sizes be w src dir []) = Inr () \<and>
     saved (snd (generate_sizes be w src dir [])) =
       map (\<lambda>(sz, scale). (dir @ ''/'' @ icon_filename sz scale,
                            PngFile (resize be src (int (sz * scale), int (sz * scale))))) sizes @
       [(dir @ ''/Contents.json'',
         JsonFile
           (JObject
              [(''images'', JArray (map (\<lambda>(sz, scale). manifest_entry sz scale) sizes)),
               (''info'', JObject [(''author'', JString ''xcode''), (''version'', JInt 1)])]) 2)] \<and>
     length sizes = 10 \<and>
     distinct (map (\<lambda>(sz, scale). icon_filename sz scale) sizes) \<and>
     map (\<lambda>(sz, scale). (dir @ ''/'' @ icon_filename sz scale,
                          PngFile (resize be src (int (sz * scale), int (sz * scale))))) sizes =
       [(dir @ ''/icon_16x16.png'', PngFile (resize be src (16, 16))),
        (dir @ ''/icon_16x16@2x.png'', PngFile (resize be src (32, 32))),
        (dir @ ''/icon_32x32.png'', PngFile (resize be src (32, 32))),
        (dir @ ''/icon_32x32@2x.png'', PngFile (resize be src (64, 64))),
        (dir @ ''/icon_128x128.png'', PngFile (resize be src (128, 128))),
        (dir @ ''/icon_128x128@2x.png'', PngFile (resize be src (256, 256))),
        (dir @ ''/icon_256x256.png'', PngFile (resize be src (256, 256))),
        (dir @ ''/icon_256x256@2x.png'', PngFile (resize be src (512, 512))),
        (dir @ ''/icon_512x512.png'', PngFile (resize be src (512, 512))),
        (dir @ ''/icon_512x512@2x.png'', PngFile (resize be src (1024, 1024)))] \<and>
     map (\<lambda>(sz, scale). manifest_entry sz scale) sizes =
       [JObject [(''filename'', JString ''icon_16x16.png''), (''idiom'', JString ''mac''),
                 (''scale'', JString ''1x''), (''size'', JString ''16x16'')],
        JObject [(''filename'', JString ''icon_16x16@2x.png''), (''idiom'', JString ''mac''),
                 (''scale'', JString ''2x''), (''size'', JString ''16x16'')],
        JObject [(''filename'', JString ''icon_32x32.png''), (''idiom'', JString ''mac''),
                 (''scale'', JString ''1x''), (''size'', JString ''32x32'')],
        JObject [(''filename'', JString ''icon_32x32@2x.png''), (''idiom'', JString ''mac''),
                 (''scale'', JString ''2x''), (''size'', JString ''32x32'')],
        JObject [(''filename'', JString ''icon_128x128.png''), (''idiom'', JString ''mac''),
                 (''scale'', JString ''1x''), (''size'', JString ''128x128'')],
        JObject [(''filename'', JString ''icon_128x128@2x.png''), (''idiom'', JString ''mac''),
                 (''scale'', JString ''2x''), (''size'', JString ''128x128'')],
        JObject [(''filename'', JString ''icon_256x256.png''), (''idiom'', JString ''mac''),
                 (''scale'', JString ''1x''), (''size'', JString ''256x256'')],
        JObject [(''filename'', JString ''icon_256x256@2x.png''), (''idiom'', JString ''mac''),
                 (''scale'', JString ''2x''), (''size'', JString ''256x256'')],
        JObject [(''filename'', JString ''icon_512x512.png''), (''idiom'', JString ''mac''),
                 (''scale'', JString ''1x''), (''size'', JString ''512x512'')],
        JObject [(''filename'', JString ''icon_512x512@2x.png''), (''idiom'', JString ''mac''),
                 (''scale'', JString ''2x''), (''size'', JString ''512x512'')]]"
proof -
  have all: "\<forall>p \<in> set (export_paths dir). w p"
    using assms by (simp add: list_all_iff)
  have "fst (generate_sizes be w src dir []) = Inr ()"
    using generate_sizes_run [of be w src dir "[]"] all by (simp add: first_failure_ok)
  moreover have "length sizes = 10" by (simp add: sizes_def)
  ultimately show ?thesis
    using generate_sizes_saved [OF all, of be src "[]"] icon_filenames_distinct
      icon_files [of dir be src] manifest_entries
    by simp
qed

theorem exporter_output_witness:
  "list_all (\<lambda>p. True) (export_paths ''out'') \<and>
   fst (generate_sizes flat_backend (\<lambda>p. True) (image_new ''RGBA'' (1024, 1024) (RGBA 0 0 0 0))
          ''out'' []) = Inr () \<and>
   map fst (saved (snd (generate_sizes flat_backend (\<lambda>p. True)
          (image_new ''RGBA'' (1024, 1024) (RGBA 0 0 0 0)) ''out'' []))) =
     [''out/icon_16x16.png'', ''out/icon_16x16@2x.png'', ''out/icon_32x32.png'',
      ''out/icon_32x32@2x.png'', ''out/icon_128x128.png'', ''out/icon_128x128@2x.png'',
      ''out/icon_256x256.png'', ''out/icon_256x256@2x.png'', ''out/icon_512x512.png'',
      ''out/icon_512x512@2x.png'', ''out/Contents.json'']"
proof -
  have ok: "list_all (\<lambda>p. True) (export_paths ''out'')"
    by (simp add: list_all_iff)
  note out = exporter_output [OF ok, of flat_backend "image_new ''RGBA'' (1024, 1024) (RGBA 0 0 0 0)"]
  from out have 1: "fst (generate_sizes flat_backend (\<lambda>p. True)
      (image_new ''RGBA'' (1024, 1024) (RGBA 0 0 0 0)) ''out'' []) = Inr ()"
    by (rule conjunct1)
  from out have 2: "map fst (saved (snd (generate_sizes flat_backend (\<lambda>p. True)
          (image_new ''RGBA'' (1024, 1024) (RGBA 0 0 0 0)) ''out'' []))) =
     map fst (map (\<lambda>(sz, scale). (''out'' @ ''/'' @ icon_filename sz scale,
        PngFile (resize flat_backend (image_new ''RGBA'' (1024, 1024) (RGBA 0 0 0 0))
                   (int (sz * scale), int (sz * scale))))) sizes) @ [''out'' @ ''/Contents.json'']"
    by simp
  show ?thesis
    using ok 1 unfolding 2 icon_files by simp
qed

text \<open>
  Claim C8. A run stops at the first write that fails and returns that error: the paths
  written are exactly those before the failing one, in order, so no later icon and no
  manifest is written, and the result is a success only when every write succeeded.
  This holds for the exporter and for the whole script, whose writes are the build
  directory, the master image, the ten icons and the manifest.
\<close>

theorem run_aborts_at_first_failure:
  "fst (generate_sizes be w src dir tr) = first_failure w (export_paths dir) \<and>
   written (snd (generate_sizes be w src dir tr)) = written tr @ takeWhile w (export_paths dir) \<and>
   (fst (generate_sizes be w src dir tr) = Inr () \<longleftrightarrow> list_all w (export_paths dir)) \<and>
   fst (main be w sd tr) = first_failure w (main_paths sd) \<and>
   written (snd (main be w sd tr)) = written tr @ takeWhile w (main_paths sd) \<and>
   (fst (main be w sd tr) = Inr () \<longleftrightarrow> list_all w (main_paths sd))"
  using generate_sizes_run [of be w src dir tr] main_run [of be w sd tr]
  by (simp add: first_failure_ok list_all_iff)

text \<open>
  An instance: when the third icon cannot be written, the run returns its error after
  writing the first two icons and nothing else.
\<close>

theorem run_aborts_at_first_failure_witness:
  "fst (generate_sizes flat_backend (\<lambda>p. p \<noteq> ''out/icon_32x32.png'')
          (image_new ''RGBA'' (1024, 1024) (RGBA 0 0 0 0)) ''out'' []) =
     Inl (OSError ''out/icon_32x32.png'') \<and>
   written (snd (generate_sizes flat_backend (\<lambda>p. p \<noteq> ''out/icon_32x32.png'')
          (image_new ''RGBA'' (1024, 1024) (RGBA 0 0 0 0)) ''out'' [])) =
     [''out/icon_16x16.png'', ''out/icon_16x16@2x.png'']"
  using run_aborts_at_first_failure [of flat_backend "\<lambda>p. p \<noteq> ''out/icon_32x32.png''"
      "image_new ''RGBA'' (1024, 1024) (RGBA 0 0 0 0)" "''out''" "[]" "''scripts''"]
  by (simp add: export_paths_explicit first_failure_def)

end
